theory Spec2Isabelle
  imports Main "HOL-Library.Word"
begin

unbundle bit_operations_syntax

section \<open>Data model\<close>

text \<open>
  The embedding follows the bundled source \<^verbatim>\<open>src/src/fairplay.js\<close> (the FairPlay module
  followed by the compiled plugin, version 3.4.1).  Bytes are 8-bit words, the code units
  of a JavaScript string are 16-bit words, and the value written by
  \<^verbatim>\<open>DataView.setUint32\<close> is a 32-bit word.
\<close>

type_synonym byte = "8 word"
type_synonym u16 = "16 word"
type_synonym u32 = "32 word"

text \<open>The values the modelled code throws or rejects a promise with.\<close>

datatype js_error =
    TypeError
  | RangeError
  | ConfigError
  | NotSupportedError
  | CallbackError

section \<open>Codec utilities\<close>

subsection \<open>Platform primitives used by the codec\<close>

text \<open>
  \<^verbatim>\<open>dataView.setUint32(offset, v, true)\<close> stores \<open>v\<close> modulo \<open>2^32\<close> in four bytes, least
  significant first.  \<open>getUint32\<close> is the matching read of four bytes.
\<close>

definition setUint32 :: "u32 \<Rightarrow> byte list" where
  "setUint32 v = [ucast v, ucast (drop_bit 8 v), ucast (drop_bit 16 v), ucast (drop_bit 24 v)]"

definition getUint32 :: "byte list \<Rightarrow> u32" where
  "getUint32 bs =
     ucast (bs ! 0) OR push_bit 8 (ucast (bs ! 1)) OR push_bit 16 (ucast (bs ! 2))
       OR push_bit 24 (ucast (bs ! 3))"

text \<open>
  A \<^verbatim>\<open>Uint16Array\<close> stores each element in the byte order of the platform; the flag
  \<open>le\<close> is \<open>True\<close> on a little-endian platform.
\<close>

definition u16_bytes :: "bool \<Rightarrow> u16 \<Rightarrow> byte list" where
  "u16_bytes le c =
     (if le then [ucast c, ucast (drop_bit 8 c)] else [ucast (drop_bit 8 c), ucast c])"

definition u16_of_bytes :: "bool \<Rightarrow> byte \<Rightarrow> byte \<Rightarrow> u16" where
  "u16_of_bytes le b0 b1 =
     (if le then ucast b0 OR push_bit 8 (ucast b1) else ucast b1 OR push_bit 8 (ucast b0))"

text \<open>
  Writing the bytes \<open>bs\<close> into a buffer at byte offset \<open>off\<close> (what \<^verbatim>\<open>typedArray.set\<close>
  and \<^verbatim>\<open>setUint32\<close> do to the underlying \<^verbatim>\<open>ArrayBuffer\<close>).
\<close>

definition writeAt :: "byte list \<Rightarrow> nat \<Rightarrow> byte list \<Rightarrow> byte list" where
  "writeAt buf off bs = take off buf @ bs @ drop (off + length bs) buf"

subsection \<open>\<^verbatim>\<open>stringToUint16Array\<close>\<close>

text \<open>
  The loop \<^verbatim>\<open>for (i = 0; i < string.length; i++) array[i] = string.charCodeAt(i)\<close> over a
  zero-filled array of \<open>string.length\<close> elements.
\<close>

function fillCodeUnits :: "u16 list \<Rightarrow> nat \<Rightarrow> u16 list \<Rightarrow> u16 list" where
  "fillCodeUnits string i array =
     (if i < length string then fillCodeUnits string (Suc i) (array[i := string ! i])
      else array)"
  by pat_completeness auto
termination
  by (relation "measure (\<lambda>(string, i, array). length string - i)") auto

definition stringToUint16Array :: "u16 list \<Rightarrow> u16 list" where
  "stringToUint16Array string = fillCodeUnits string 0 (replicate (length string) 0)"

subsection \<open>\<^verbatim>\<open>concatInitDataIdAndCertificate\<close>\<close>

text \<open>
  The content identifier is either a string (converted first) or already a
  \<^verbatim>\<open>Uint16Array\<close>.  \<^verbatim>\<open>new Uint16Array(buffer, offset, id.length)\<close> throws a
  \<^verbatim>\<open>RangeError\<close> when \<open>offset\<close> is not a multiple of the element size 2.
\<close>

datatype content_id = IdString "u16 list" | IdArray "u16 list"

definition concatInitDataIdAndCertificate ::
  "bool \<Rightarrow> byte list \<Rightarrow> content_id \<Rightarrow> byte list \<Rightarrow> js_error + byte list" where
  "concatInitDataIdAndCertificate le initData id0 cert =
     (let idv = (case id0 of IdString s \<Rightarrow> stringToUint16Array s | IdArray a \<Rightarrow> a);
          idByteLength = 2 * length idv;
          buffer0 = replicate (length initData + 4 + idByteLength + 4 + length cert) 0;
          buffer1 = writeAt buffer0 0 initData;
          offset1 = 0 + length initData;
          buffer2 = writeAt buffer1 offset1 (setUint32 (of_nat idByteLength));
          offset2 = offset1 + 4
      in if offset2 mod 2 \<noteq> 0 then Inl RangeError
         else
           let buffer3 = writeAt buffer2 offset2 (concat (map (u16_bytes le) idv));
               offset3 = offset2 + idByteLength;
               buffer4 = writeAt buffer3 offset3 (setUint32 (of_nat (length cert)));
               offset4 = offset3 + 4;
               buffer5 = writeAt buffer4 offset4 cert
           in Inr buffer5)"

subsection \<open>Reading the composite payload back\<close>

text \<open>
  The source has no decoder.  \<open>decodePayload\<close> follows the layout as the specification words
  it: the initialization data (whose length the reader knows, since it carries no prefix),
  a four-byte little-endian byte length, that many bytes of UTF-16 code units, a four-byte
  little-endian byte length, that many certificate bytes.
\<close>

fun u16s_of_bytes :: "bool \<Rightarrow> byte list \<Rightarrow> u16 list" where
  "u16s_of_bytes le (b0 # b1 # bs) = u16_of_bytes le b0 b1 # u16s_of_bytes le bs"
| "u16s_of_bytes le _ = []"

definition decodePayload ::
  "bool \<Rightarrow> nat \<Rightarrow> byte list \<Rightarrow> (byte list \<times> u16 list \<times> byte list) option" where
  "decodePayload le n payload =
     (if length payload < n + 4 then None
      else
        let initData = take n payload;
            idLen = unat (getUint32 (take 4 (drop n payload)));
            rest = drop (n + 4) payload
        in if odd idLen \<or> length rest < idLen + 4 then None
           else
             let idv = u16s_of_bytes le (take idLen rest);
                 certLen = unat (getUint32 (take 4 (drop idLen rest)));
                 cert = drop (idLen + 4) rest
             in if length cert \<noteq> certLen then None else Some (initData, idv, cert))"


section \<open>Session registry\<close>

subsection \<open>Buffers and registry entries\<close>

text \<open>
  Initialization data reaches the plugin as a JavaScript object.  Objects are compared with
  \<^verbatim>\<open>===\<close> by identity, so a buffer is modelled by its address and the bytes live in a
  store \<open>heap\<close> from addresses to contents (no modelled function writes to a buffer).
  A typed array is a view: it carries its own address, the address of its
  \<^verbatim>\<open>.buffer\<close>, its \<^verbatim>\<open>.byteOffset\<close> into that buffer and its \<^verbatim>\<open>.length\<close> in
  elements.
  \<open>None\<close> stands for \<^verbatim>\<open>null\<close> and \<^verbatim>\<open>undefined\<close>, which the modelled code
  tells apart nowhere: an entry that the plugin puts in the registry always holds a buffer.
\<close>

type_synonym addr = nat
type_synonym heap = "addr \<Rightarrow> byte list"

datatype jsref =
    ArrayBuffer addr
  | Uint8Array addr addr nat nat
  | Uint16Array addr addr nat nat

text \<open>
  An entry of \<^verbatim>\<open>player.eme.sessions\<close>: \<^verbatim>\<open>{initData}\<close> for the standard path and
  \<^verbatim>\<open>{playready: true, initData}\<close> for the PlayReady path.
\<close>

record session =
  s_playready :: bool
  s_initData :: "jsref option"

subsection \<open>\<^verbatim>\<open>arrayBufferFrom\<close> and \<^verbatim>\<open>arrayBuffersEqual\<close>\<close>

text \<open>
  \<^verbatim>\<open>arrayBufferFrom\<close> returns the \<^verbatim>\<open>.buffer\<close> of a \<^verbatim>\<open>Uint8Array\<close> or
  \<^verbatim>\<open>Uint16Array\<close> and every other value unchanged; its result is an \<^verbatim>\<open>ArrayBuffer\<close>,
  given by its address, or \<^verbatim>\<open>null\<close>.
\<close>

fun arrayBufferFrom :: "jsref option \<Rightarrow> addr option" where
  "arrayBufferFrom (Some (Uint8Array a b byteOffset n)) = Some b"
| "arrayBufferFrom (Some (Uint16Array a b byteOffset n)) = Some b"
| "arrayBufferFrom (Some (ArrayBuffer b)) = Some b"
| "arrayBufferFrom None = None"

text \<open>The loop \<^verbatim>\<open>for (i = 0; i < dataView1.byteLength; i++)\<close> of \<^verbatim>\<open>arrayBuffersEqual\<close>.\<close>

function bytesEqualFrom :: "byte list \<Rightarrow> byte list \<Rightarrow> nat \<Rightarrow> bool" where
  "bytesEqualFrom view1 view2 i =
     (if i < length view1
      then (if view1 ! i \<noteq> view2 ! i then False else bytesEqualFrom view1 view2 (Suc i))
      else True)"
  by pat_completeness auto
termination
  by (relation "measure (\<lambda>(view1, view2, i). length view1 - i)") auto

text \<open>
  Identical references are equal without a look at the bytes.  Otherwise reading
  \<^verbatim>\<open>.byteLength\<close> of \<^verbatim>\<open>null\<close> throws a \<^verbatim>\<open>TypeError\<close>; buffers of different length
  differ; buffers of the same length are compared byte by byte.
\<close>

definition arrayBuffersEqual :: "heap \<Rightarrow> addr option \<Rightarrow> addr option \<Rightarrow> js_error + bool" where
  "arrayBuffersEqual h arrayBuffer1 arrayBuffer2 =
     (if arrayBuffer1 = arrayBuffer2 then Inr True
      else
        (case (arrayBuffer1, arrayBuffer2) of
           (Some b1, Some b2) \<Rightarrow>
             if length (h b1) \<noteq> length (h b2) then Inr False
             else Inr (bytesEqualFrom (h b1) (h b2) 0)
         | _ \<Rightarrow> Inl TypeError))"

subsection \<open>\<^verbatim>\<open>hasSession\<close> and \<^verbatim>\<open>removeSession\<close>\<close>

text \<open>
  \<^verbatim>\<open>hasSession\<close> skips entries without initialization data, returns \<open>True\<close> at the first
  entry whose buffer equals the argument's buffer, and \<open>False\<close> after the last entry.  An
  exception of \<^verbatim>\<open>arrayBuffersEqual\<close> leaves the loop.
\<close>

fun hasSession :: "heap \<Rightarrow> session list \<Rightarrow> jsref option \<Rightarrow> js_error + bool" where
  "hasSession h [] d = Inr False"
| "hasSession h (s # ss) d =
     (case s_initData s of
        None \<Rightarrow> hasSession h ss d
      | Some sd \<Rightarrow>
          (case arrayBuffersEqual h (arrayBufferFrom (Some sd)) (arrayBufferFrom d) of
             Inl e \<Rightarrow> Inl e
           | Inr True \<Rightarrow> Inr True
           | Inr False \<Rightarrow> hasSession h ss d))"

text \<open>
  \<^verbatim>\<open>removeSession\<close> splices out the first entry with
  \<^verbatim>\<open>sessions[i].initData === initData\<close> and returns; the comparison is the identity of the
  two references.
\<close>

fun removeSession :: "session list \<Rightarrow> jsref option \<Rightarrow> session list" where
  "removeSession [] d = []"
| "removeSession (s # ss) d = (if s_initData s = d then ss else s # removeSession ss d)"

text \<open>
  The bytes that the registry compares for a piece of initialization data: those of the
  buffer \<^verbatim>\<open>arrayBufferFrom\<close> selects.  For a typed array this is the whole buffer
  under the view, as in the source.
\<close>

definition initDataBytes :: "heap \<Rightarrow> jsref \<Rightarrow> byte list" where
  "initDataBytes h d = (case arrayBufferFrom (Some d) of Some b \<Rightarrow> h b | None \<Rightarrow> [])"

text \<open>
  The bytes that a piece of initialization data itself presents: all of an
  \<^verbatim>\<open>ArrayBuffer\<close>, and for a typed array the window of its buffer that starts at
  \<^verbatim>\<open>byteOffset\<close> and holds \<^verbatim>\<open>length\<close> elements.
\<close>

fun ownBytes :: "heap \<Rightarrow> jsref \<Rightarrow> byte list" where
  "ownBytes h (ArrayBuffer b) = h b"
| "ownBytes h (Uint8Array a b byteOffset n) = take n (drop byteOffset (h b))"
| "ownBytes h (Uint16Array a b byteOffset n) = take (2 * n) (drop byteOffset (h b))"

text \<open>
  No two entries of a registry hold initialization data with byte-equal buffers, in the
  sense of \<open>initDataBytes\<close>.
\<close>

fun noDuplicateInitData :: "heap \<Rightarrow> session list \<Rightarrow> bool" where
  "noDuplicateInitData h [] = True"
| "noDuplicateInitData h (s # ss) =
     ((case s_initData s of
         None \<Rightarrow> True
       | Some d \<Rightarrow> list_all (\<lambda>t. case s_initData t of None \<Rightarrow> True
                                 | Some e \<Rightarrow> initDataBytes h e \<noteq> initDataBytes h d) ss)
      \<and> noDuplicateInitData h ss)"


section \<open>Key-system configuration\<close>

text \<open>
  A license function is a custom function of the caller (identified by a number) or one of
  the two defaults built from a URL.  The hooks \<^verbatim>\<open>getCertificate\<close> and \<^verbatim>\<open>getKey\<close> are
  custom functions of the caller.
\<close>

datatype licenseFn =
    CustomGetLicense nat
  | DefaultGetLicense string
  | DefaultPlayreadyGetLicense string

record keySystemOptions =
  url :: "string option"
  getLicense :: "licenseFn option"
  getCertificate :: "nat option"
  getKey :: "nat option"
  pssh :: "jsref option"
  audioContentType :: "string option"
  videoContentType :: "string option"

text \<open>The value configured for a key system: a string (the license URL) or an object.\<close>

datatype keySystemConfig = ConfigString string | ConfigObject keySystemOptions

text \<open>JavaScript truthiness of an optional string: absent and empty strings are falsy.\<close>

definition truthy :: "string option \<Rightarrow> bool" where
  "truthy s = (case s of None \<Rightarrow> False | Some v \<Rightarrow> v \<noteq> [])"

subsection \<open>\<^verbatim>\<open>standardizeKeySystemOptions\<close>\<close>

text \<open>
  \<^verbatim>\<open>throw new Error('Neither URL nor getLicense function provided to get license')\<close> is the
  error \<open>ConfigError\<close>.  The source sets \<^verbatim>\<open>getLicense\<close> on the object it was given; the
  model returns the updated object.
\<close>

definition standardizeKeySystemOptions ::
  "string \<Rightarrow> keySystemConfig \<Rightarrow> js_error + keySystemOptions" where
  "standardizeKeySystemOptions keySystem keySystemOptions0 =
     (let keySystemOptions =
            (case keySystemOptions0 of
               ConfigString s \<Rightarrow>
                 \<lparr>url = Some s, getLicense = None, getCertificate = None, getKey = None,
                  pssh = None, audioContentType = None, videoContentType = None\<rparr>
             | ConfigObject opts \<Rightarrow> opts)
      in if \<not> truthy (url keySystemOptions) \<and> getLicense keySystemOptions = None
         then Inl ConfigError
         else if truthy (url keySystemOptions) \<and> getLicense keySystemOptions = None
         then (case url keySystemOptions of
                 None \<Rightarrow> Inr keySystemOptions
               | Some u \<Rightarrow>
                   Inr (keySystemOptions
                     \<lparr>getLicense :=
                        Some (if keySystem = ''com.microsoft.playready''
                              then DefaultPlayreadyGetLicense u else DefaultGetLicense u)\<rparr>))
         else Inr keySystemOptions)"

text \<open>
  The two notions the specification uses for a configuration: it supplies a license URL
  (a non-empty string, by the truthiness test of the source), it supplies a custom
  \<^verbatim>\<open>getLicense\<close> function.
\<close>

definition suppliesUrl :: "keySystemConfig \<Rightarrow> bool" where
  "suppliesUrl cfg = (case cfg of ConfigString s \<Rightarrow> s \<noteq> [] | ConfigObject opts \<Rightarrow> truthy (url opts))"

definition suppliesGetLicense :: "keySystemConfig \<Rightarrow> bool" where
  "suppliesGetLicense cfg =
     (case cfg of ConfigString s \<Rightarrow> False | ConfigObject opts \<Rightarrow> getLicense opts \<noteq> None)"

subsection \<open>\<^verbatim>\<open>getSupportedKeySystem\<close>\<close>

text \<open>
  The platform decides each \<^verbatim>\<open>requestMediaKeySystemAccess(keySystem, [systemOptions])\<close>;
  it is a parameter \<open>accepts\<close>.  \<^verbatim>\<open>options.keySystems\<close> is a list of pairs in the order
  of \<^verbatim>\<open>Object.keys\<close>.  The result is \<open>None\<close> for \<^verbatim>\<open>undefined\<close> (no key system
  configured), otherwise a promise that resolves with the first accepted key system or
  rejects when every request was rejected.
\<close>

record systemOptions =
  audioCapabilities :: "string option"
  videoCapabilities :: "string option"

type_synonym platform = "string \<Rightarrow> systemOptions \<Rightarrow> bool"

datatype access = Granted string | Denied

definition systemOptionsOf :: "keySystemConfig \<Rightarrow> systemOptions" where
  "systemOptionsOf cfg =
     (case cfg of
        ConfigString s \<Rightarrow> \<lparr>audioCapabilities = None, videoCapabilities = None\<rparr>
      | ConfigObject opts \<Rightarrow>
          \<lparr>audioCapabilities =
             (if truthy (audioContentType opts) then audioContentType opts else None),
           videoCapabilities =
             (if truthy (videoContentType opts) then videoContentType opts else None)\<rparr>)"

fun getSupportedKeySystem :: "platform \<Rightarrow> (string \<times> keySystemConfig) list \<Rightarrow> access option" where
  "getSupportedKeySystem accepts [] = None"
| "getSupportedKeySystem accepts ((keySystem, cfg) # rest) =
     (if accepts keySystem (systemOptionsOf cfg) then Some (Granted keySystem)
      else (case getSupportedKeySystem accepts rest of
              None \<Rightarrow> Some Denied
            | Some r \<Rightarrow> Some r))"

section \<open>Session orchestrator\<close>

subsection \<open>State\<close>

text \<open>
  The fields the plugin keeps on the video element: \<^verbatim>\<open>mediaKeysObject\<close> (\<^verbatim>\<open>undefined\<close>,
  \<^verbatim>\<open>null\<close> while creation is under way, or the created object), \<^verbatim>\<open>pendingSessionData\<close>
  (\<open>None\<close> while \<^verbatim>\<open>undefined\<close>) and \<^verbatim>\<open>keySystem\<close>.
\<close>

datatype mediaKeysSlot = Undefined | Null | MediaKeys nat

record pendingData =
  p_initDataType :: string
  p_initData :: "jsref option"

record video =
  mediaKeysObject :: mediaKeysSlot
  pendingSessionData :: "pendingData list option"
  keySystem :: "string option"

text \<open>
  \<^verbatim>\<open>promisifyGetLicense(getLicenseFn, eventBus)\<close> is the pair of its two arguments; the flag
  says whether an event bus was supplied.
\<close>

type_synonym promisified = "licenseFn option \<times> bool"

text \<open>
  A key session made by \<^verbatim>\<open>makeNewRequest\<close>, with what its two listeners captured.
  \<^verbatim>\<open>removeSession\<close> is \<^verbatim>\<open>removeSession.bind(null, sessions)\<close>: the captured value is
  the identity of the array it is bound to.  \<^verbatim>\<open>eventBus\<close> says whether an event bus
  was supplied.
\<close>

record keySession =
  k_mediaKeys :: nat
  k_initDataType :: string
  k_initData :: "jsref option"
  k_getLicense :: "promisified option"
  k_removeSession :: nat
  k_eventBus :: bool

text \<open>Calls to the platform, to the hooks of the caller, to the event bus and to the log.\<close>

datatype effect =
    MediaKeysSetupEntered
  | LogError string
  | LogWarn string
  | CallGetCertificate nat
  | CreateMediaKeys string
  | SetServerCertificate nat nat
  | VideoSetMediaKeys nat
  | CreateSession nat
  | GenerateRequest string "jsref option"
  | TriggerKeyStatusChange string string nat
  | CloseSession nat

text \<open>
  The arguments of \<^verbatim>\<open>standard5July2016\<close>.  Its \<^verbatim>\<open>removeSession\<close> is bound to a
  sessions array, given by the identity of that array.
\<close>

record callArgs =
  a_initDataType :: string
  a_initData :: "jsref option"
  a_keySystems :: "(string \<times> keySystemConfig) list"
  a_removeSession :: nat
  a_eventBus :: bool

text \<open>
  A promise chain waits at an asynchronous primitive; a task records where it waits and what
  its continuation captured.
\<close>

datatype task =
    AwaitKeySystemAccess callArgs access
  | AwaitCertificate callArgs string keySystemOptions
  | AwaitCreateMediaKeys callArgs keySystemOptions "nat option"
  | AwaitSetMediaKeys callArgs
  | AwaitAddSession callArgs
  | AwaitClose nat "jsref option"

text \<open>
  The state of one player: \<^verbatim>\<open>player.eme.activeSrc\<close> and the registry
  \<^verbatim>\<open>player.eme.sessions\<close> of the active source, the fields on the video element, the key
  sessions made so far, the effects so far, and the promise chains that wait.

  \<^verbatim>\<open>player.eme.sessions\<close> is a reference to an array, and \<^verbatim>\<open>setupSessions\<close> assigns a
  new array to it.  \<open>sessionsId\<close> is the identity of the array the field refers to now and
  \<open>sessions\<close> its contents; \<open>replaced\<close> holds the contents of the arrays the field
  referred to earlier, which the callbacks bound to them still reach.
\<close>

record world =
  activeSrc :: "string option"
  sessionsId :: nat
  sessions :: "session list"
  replaced :: "nat \<Rightarrow> session list"
  video :: video
  keySessions :: "keySession list"
  effects :: "effect list"
  tasks :: "task list"

datatype promise = Fulfilled | Rejected js_error | Pending

definition emit :: "effect list \<Rightarrow> world \<Rightarrow> world" where
  "emit es w = w\<lparr>effects := effects w @ es\<rparr>"

definition spawn :: "task \<Rightarrow> world \<Rightarrow> world" where
  "spawn t w = w\<lparr>tasks := tasks w @ [t]\<rparr>"


subsection \<open>\<^verbatim>\<open>setupSessions\<close>\<close>

text \<open>
  \<^verbatim>\<open>player.eme.sessions = []\<close> makes a new array; the array the field referred to
  before keeps its contents.
\<close>

definition setupSessions :: "string option \<Rightarrow> world \<Rightarrow> world" where
  "setupSessions src w =
     (if src \<noteq> activeSrc w
      then w\<lparr>activeSrc := src,
             replaced := (replaced w)(sessionsId w := sessions w),
             sessionsId := Suc (sessionsId w),
             sessions := []\<rparr>
      else w)"

text \<open>
  \<^verbatim>\<open>removeSession.bind(null, sessions)\<close> applied to initialization data: the splice
  happens in the array the function is bound to, which is the registry of the player only
  as long as \<^verbatim>\<open>player.eme.sessions\<close> still refers to it.
\<close>

definition boundRemoveSession :: "nat \<Rightarrow> jsref option \<Rightarrow> world \<Rightarrow> world" where
  "boundRemoveSession array d w =
     (if array = sessionsId w then w\<lparr>sessions := removeSession (sessions w) d\<rparr>
      else w\<lparr>replaced := (replaced w)(array := removeSession (replaced w array) d)\<rparr>)"

subsection \<open>\<^verbatim>\<open>makeNewRequest\<close>, \<^verbatim>\<open>addSession\<close>, \<^verbatim>\<open>setMediaKeys\<close>\<close>

text \<open>
  \<^verbatim>\<open>makeNewRequest\<close> creates a key session on the media keys, registers the
  \<^verbatim>\<open>message\<close> and \<^verbatim>\<open>keystatuseschange\<close> listeners and calls
  \<^verbatim>\<open>generateRequest(initDataType, initData)\<close>.
\<close>

definition makeNewRequest ::
  "nat \<Rightarrow> string \<Rightarrow> jsref option \<Rightarrow> promisified option \<Rightarrow> nat \<Rightarrow> bool \<Rightarrow> world \<Rightarrow> world" where
  "makeNewRequest mediaKeys initDataType initData getLicense' removeSession' eventBus w =
     w\<lparr>keySessions := keySessions w @
          [\<lparr>k_mediaKeys = mediaKeys, k_initDataType = initDataType, k_initData = initData,
            k_getLicense = getLicense', k_removeSession = removeSession',
            k_eventBus = eventBus\<rparr>],
       effects := effects w @ [CreateSession mediaKeys, GenerateRequest initDataType initData]\<rparr>"

text \<open>
  A function that can throw returns the error, if any, with the state reached.
  \<^verbatim>\<open>video.pendingSessionData.push\<close> throws a \<^verbatim>\<open>TypeError\<close> while the queue is
  \<^verbatim>\<open>undefined\<close>.
\<close>

definition addSession ::
  "string \<Rightarrow> jsref option \<Rightarrow> promisified option \<Rightarrow> nat \<Rightarrow> bool \<Rightarrow> world
     \<Rightarrow> js_error option \<times> world" where
  "addSession initDataType initData getLicense' removeSession' eventBus w =
     (case mediaKeysObject (video w) of
        MediaKeys mk \<Rightarrow>
          (None, makeNewRequest mk initDataType initData getLicense' removeSession' eventBus w)
      | _ \<Rightarrow>
          (case pendingSessionData (video w) of
             None \<Rightarrow> (Some TypeError, w)
           | Some queue \<Rightarrow>
               (None, w\<lparr>video := (video w)\<lparr>pendingSessionData :=
                  Some (queue @ [\<lparr>p_initDataType = initDataType, p_initData = initData\<rparr>])\<rparr>\<rparr>)))"

text \<open>
  The loop of \<^verbatim>\<open>setMediaKeys\<close> over \<^verbatim>\<open>video.pendingSessionData\<close>.  Every queued
  pair gets the \<^verbatim>\<open>getLicense\<close>, \<^verbatim>\<open>removeSession\<close> and \<^verbatim>\<open>eventBus\<close> of the call of
  \<^verbatim>\<open>setMediaKeys\<close>, not those of the call that queued it.
\<close>

fun drainPending ::
  "nat \<Rightarrow> promisified option \<Rightarrow> nat \<Rightarrow> bool \<Rightarrow> pendingData list \<Rightarrow> world \<Rightarrow> world" where
  "drainPending mediaKeys getLicense' removeSession' eventBus [] w = w"
| "drainPending mediaKeys getLicense' removeSession' eventBus (data # rest) w =
     drainPending mediaKeys getLicense' removeSession' eventBus rest
       (makeNewRequest mediaKeys (p_initDataType data) (p_initData data) getLicense'
          removeSession' eventBus w)"

definition setMediaKeys ::
  "nat \<Rightarrow> nat option \<Rightarrow> promisified option \<Rightarrow> nat \<Rightarrow> bool \<Rightarrow> world
     \<Rightarrow> js_error option \<times> world" where
  "setMediaKeys createdMediaKeys certificate getLicense' removeSession' eventBus w =
     (let w1 = w\<lparr>video := (video w)\<lparr>mediaKeysObject := MediaKeys createdMediaKeys\<rparr>\<rparr>;
          w2 = (case certificate of
                  None \<Rightarrow> w1
                | Some c \<Rightarrow> emit [SetServerCertificate createdMediaKeys c] w1)
      in case pendingSessionData (video w2) of
           None \<Rightarrow> (Some TypeError, w2)
         | Some queue \<Rightarrow>
             (let w3 = drainPending createdMediaKeys getLicense' removeSession' eventBus queue w2;
                  w4 = w3\<lparr>video := (video w3)\<lparr>pendingSessionData := Some []\<rparr>\<rparr>
              in (None, emit [VideoSetMediaKeys createdMediaKeys] w4)))"




subsection \<open>\<^verbatim>\<open>standard5July2016\<close>\<close>

text \<open>
  The synchronous part: the guard on \<^verbatim>\<open>typeof video.mediaKeysObject === 'undefined'\<close>, the
  two assignments, the call of \<^verbatim>\<open>getSupportedKeySystem\<close>, and the promise chain left
  waiting.  The marker \<open>MediaKeysSetupEntered\<close> records that the guarded branch was taken.
\<close>

definition standard5July2016 :: "platform \<Rightarrow> callArgs \<Rightarrow> world \<Rightarrow> promise \<times> world" where
  "standard5July2016 accepts a w =
     (if mediaKeysObject (video w) = Undefined then
        (let w1 = emit [MediaKeysSetupEntered]
                    (w\<lparr>video := (video w)\<lparr>mediaKeysObject := Null,
                                            pendingSessionData := Some []\<rparr>\<rparr>)
         in case getSupportedKeySystem accepts (a_keySystems a) of
              None \<Rightarrow> (Fulfilled, emit [LogError ''No supported key system found''] w1)
            | Some acc \<Rightarrow> (Pending, spawn (AwaitKeySystemAccess a acc) w1))
      else (Pending, spawn (AwaitAddSession a) w))"

text \<open>
  The \<^verbatim>\<open>.catch\<close> at the end of the chain logs the failure; the final \<^verbatim>\<open>.then\<close> with
  \<^verbatim>\<open>addSession\<close> still runs.
\<close>

definition chainFailed :: "callArgs \<Rightarrow> world \<Rightarrow> world" where
  "chainFailed a w =
     spawn (AwaitAddSession a)
       (emit [LogError ''Failed to create and initialize a MediaKeys object''] w)"

text \<open>
  First \<^verbatim>\<open>.then\<close>: store the key system on the video, standardize its options (a throw
  rejects the chain), then resolve at once or call the certificate hook.  Second
  \<^verbatim>\<open>.then\<close>: \<^verbatim>\<open>keySystemAccess.createMediaKeys()\<close>.
\<close>

definition onKeySystemAccess :: "callArgs \<Rightarrow> access \<Rightarrow> world \<Rightarrow> world" where
  "onKeySystemAccess a acc w =
     (case acc of
        Denied \<Rightarrow> chainFailed a w
      | Granted ks \<Rightarrow>
          (let w1 = w\<lparr>video := (video w)\<lparr>keySystem := Some ks\<rparr>\<rparr>
           in case map_of (a_keySystems a) ks of
                None \<Rightarrow> chainFailed a w1
              | Some cfg \<Rightarrow>
                  (case standardizeKeySystemOptions ks cfg of
                     Inl e \<Rightarrow> chainFailed a w1
                   | Inr keySystemOptions \<Rightarrow>
                       (case getCertificate keySystemOptions of
                          None \<Rightarrow>
                            spawn (AwaitCreateMediaKeys a keySystemOptions None)
                              (emit [CreateMediaKeys ks] w1)
                        | Some hook \<Rightarrow>
                            spawn (AwaitCertificate a ks keySystemOptions)
                              (emit [CallGetCertificate hook] w1)))))"

definition onCertificate ::
  "callArgs \<Rightarrow> string \<Rightarrow> keySystemOptions \<Rightarrow> js_error + nat option \<Rightarrow> world \<Rightarrow> world" where
  "onCertificate a ks keySystemOptions result w =
     (case result of
        Inl err \<Rightarrow> chainFailed a w
      | Inr cert \<Rightarrow>
          spawn (AwaitCreateMediaKeys a keySystemOptions cert) (emit [CreateMediaKeys ks] w))"

text \<open>Third \<^verbatim>\<open>.then\<close>: \<^verbatim>\<open>setMediaKeys\<close> with the created object.\<close>

definition onCreateMediaKeys ::
  "callArgs \<Rightarrow> keySystemOptions \<Rightarrow> nat option \<Rightarrow> nat option \<Rightarrow> world \<Rightarrow> world" where
  "onCreateMediaKeys a keySystemOptions certificate created w =
     (case created of
        None \<Rightarrow> chainFailed a w
      | Some createdMediaKeys \<Rightarrow>
          (case setMediaKeys createdMediaKeys certificate
                  (Some (getLicense keySystemOptions, a_eventBus a))
                  (a_removeSession a) (a_eventBus a) w of
             (Some e, w1) \<Rightarrow> chainFailed a w1
           | (None, w1) \<Rightarrow> spawn (AwaitSetMediaKeys a) w1))"

definition onSetMediaKeys :: "callArgs \<Rightarrow> bool \<Rightarrow> world \<Rightarrow> world" where
  "onSetMediaKeys a ok w = (if ok then spawn (AwaitAddSession a) w else chainFailed a w)"

text \<open>
  Final \<^verbatim>\<open>.then\<close>: \<^verbatim>\<open>addSession\<close>, with a license function only once
  \<^verbatim>\<open>video.keySystem\<close> is known.  A throw rejects the returned promise.
\<close>

definition onAddSession :: "callArgs \<Rightarrow> world \<Rightarrow> js_error option \<times> world" where
  "onAddSession a w =
     (if truthy (keySystem (video w)) then
        (case keySystem (video w) of
           None \<Rightarrow>
             addSession (a_initDataType a) (a_initData a) None
               (a_removeSession a) (a_eventBus a) w
         | Some ks \<Rightarrow>
             (case map_of (a_keySystems a) ks of
                None \<Rightarrow> (Some TypeError, w)
              | Some cfg \<Rightarrow>
                  (case standardizeKeySystemOptions ks cfg of
                     Inl e \<Rightarrow> (Some e, w)
                   | Inr keySystemOptions \<Rightarrow>
                       addSession (a_initDataType a) (a_initData a)
                         (Some (getLicense keySystemOptions, a_eventBus a))
                         (a_removeSession a) (a_eventBus a) w)))
      else
        addSession (a_initDataType a) (a_initData a) None
          (a_removeSession a) (a_eventBus a) w)"

subsection \<open>The \<^verbatim>\<open>keystatuseschange\<close> listener of \<^verbatim>\<open>makeNewRequest\<close>\<close>

text \<open>
  \<^verbatim>\<open>keySession.keyStatuses.forEach\<close> visits the pairs of key id and status in order.  Each
  visit first calls \<^verbatim>\<open>eventBus.trigger\<close> with a \<^verbatim>\<open>keystatuschange\<close> event; the call
  has no guard, so without an event bus it throws a \<^verbatim>\<open>TypeError\<close>, which ends the loop
  and the listener.  Then the \<^verbatim>\<open>switch\<close> sets the flag \<^verbatim>\<open>expired\<close> or logs a
  warning.
\<close>

fun keyStatusesLoop ::
  "bool \<Rightarrow> nat \<Rightarrow> (string \<times> string) list \<Rightarrow> bool \<times> effect list
     \<Rightarrow> js_error + bool \<times> effect list" where
  "keyStatusesLoop eventBus n [] acc = Inr acc"
| "keyStatusesLoop eventBus n ((keyId, status) # rest) (expired, es) =
     (if \<not> eventBus then Inl TypeError
      else
        keyStatusesLoop eventBus n rest
          (if status = ''expired'' then (True, es @ [TriggerKeyStatusChange keyId status n])
           else if status = ''internal-error''
           then (expired, es @ [TriggerKeyStatusChange keyId status n,
                                LogWarn ''Key status reported as internal-error''])
           else (expired, es @ [TriggerKeyStatusChange keyId status n])))"

text \<open>
  The listener of the key session at index \<open>n\<close>, with the event bus, the
  \<^verbatim>\<open>removeSession\<close> and the initialization data that \<^verbatim>\<open>makeNewRequest\<close> was called
  with.  An exception of the loop leaves the listener before anything else is done (the
  throwing visit is the first one, so nothing was triggered or logged).  When the flag is
  set the listener calls \<^verbatim>\<open>keySession.close()\<close> and waits for the returned promise.
\<close>

definition onKeyStatusesChange ::
  "nat \<Rightarrow> (string \<times> string) list \<Rightarrow> world \<Rightarrow> js_error option \<times> world" where
  "onKeyStatusesChange n statuses w =
     (if n < length (keySessions w) then
        (let made = keySessions w ! n
         in case keyStatusesLoop (k_eventBus made) n statuses (False, []) of
              Inl e \<Rightarrow> (Some e, w)
            | Inr (expired, es) \<Rightarrow>
                if expired
                then (None, spawn (AwaitClose (k_removeSession made) (k_initData made))
                              (emit (es @ [CloseSession n]) w))
                else (None, emit es w))
      else (None, w))"

text \<open>
  \<^verbatim>\<open>keySession.close().then(function () { removeSession(initData); })\<close>: the bound
  \<^verbatim>\<open>removeSession\<close> is called only when the promise of \<^verbatim>\<open>close\<close> is fulfilled.
\<close>

definition onClose :: "nat \<Rightarrow> jsref option \<Rightarrow> bool \<Rightarrow> world \<Rightarrow> world" where
  "onClose removeSession' capturedInitData ok w =
     (if ok then boundRemoveSession removeSession' capturedInitData w else w)"

subsection \<open>\<^verbatim>\<open>handleEncryptedEvent\<close>\<close>

record mediaEncryptedEvent =
  ev_initDataType :: string
  ev_initData :: "jsref option"

record emeOptions =
  keySystems :: "(string \<times> keySystemConfig) list option"

text \<open>\<^verbatim>\<open>options.keySystems[keySystem] && options.keySystems[keySystem].pssh\<close>.\<close>

definition psshOf :: "(string \<times> keySystemConfig) list \<Rightarrow> string \<Rightarrow> jsref option" where
  "psshOf kss ks =
     (case map_of kss ks of
        Some (ConfigObject opts) \<Rightarrow> pssh opts
      | _ \<Rightarrow> None)"

text \<open>The initialization data the continuation works with: the override or the event's.\<close>

definition initDataFor ::
  "(string \<times> keySystemConfig) list \<Rightarrow> string \<Rightarrow> mediaEncryptedEvent \<Rightarrow> jsref option" where
  "initDataFor kss ks event =
     (case psshOf kss ks of
        Some p \<Rightarrow> Some p
      | None \<Rightarrow> ev_initData event)"

text \<open>
  The function with the continuation it passes to \<^verbatim>\<open>.then\<close>, run as one turn of the event
  loop against the registry of the active source: its argument \<^verbatim>\<open>sessions\<close> is the array
  \<^verbatim>\<open>player.eme.sessions\<close> refers to, and \<^verbatim>\<open>removeSession.bind(null, sessions)\<close> is
  bound to that array.  The first component of the result is a synchronous exception
  (\<open>Inl\<close>) or the state of the returned promise; \<open>Pending\<close> is the promise of
  \<^verbatim>\<open>standard5July2016\<close>.
\<close>

definition handleEncryptedEvent ::
  "platform \<Rightarrow> heap \<Rightarrow> mediaEncryptedEvent \<Rightarrow> emeOptions option \<Rightarrow> bool \<Rightarrow> world
     \<Rightarrow> (js_error + promise) \<times> world" where
  "handleEncryptedEvent accepts h event options eventBus w =
     (case options of
        None \<Rightarrow> (Inr Fulfilled, w)
      | Some opts \<Rightarrow>
          (case keySystems opts of
             None \<Rightarrow> (Inr Fulfilled, w)
           | Some kss \<Rightarrow>
               (case getSupportedKeySystem accepts kss of
                  None \<Rightarrow> (Inl TypeError, w)
                | Some Denied \<Rightarrow> (Inr (Rejected NotSupportedError), w)
                | Some (Granted ks) \<Rightarrow>
                    (let initData = initDataFor kss ks event
                     in case hasSession h (sessions w) initData of
                          Inl e \<Rightarrow> (Inr (Rejected e), w)
                        | Inr True \<Rightarrow> (Inr Fulfilled, w)
                        | Inr False \<Rightarrow>
                            if initData = None then (Inr Fulfilled, w)
                            else
                              (case standard5July2016 accepts
                                      \<lparr>a_initDataType = ev_initDataType event,
                                       a_initData = initData, a_keySystems = kss,
                                       a_removeSession = sessionsId w,
                                       a_eventBus = eventBus\<rparr>
                                      (w\<lparr>sessions := sessions w @
                                           [\<lparr>s_playready = False, s_initData = initData\<rparr>]\<rparr>) of
                                 (p, w') \<Rightarrow> (Inr p, w'))))))"

subsection \<open>The event loop\<close>

text \<open>
  What can happen next: the listener of an event runs \<^verbatim>\<open>setupSessions\<close>; the continuation
  of an encrypted event runs; \<^verbatim>\<open>standard5July2016\<close> is called; a waiting promise chain is
  settled with a result; a key session reports its key statuses.
\<close>

datatype settlement =
    AccessSettled
  | CertificateCallback "js_error + nat option"
  | MediaKeysSettled "nat option"
  | SetMediaKeysSettled bool
  | AddSessionTurn
  | CloseSettled bool

datatype action =
    SetupSessions "string option"
  | Encrypted mediaEncryptedEvent "emeOptions option"
  | CallStandard callArgs
  | Settle nat settlement
  | KeyStatusesChange nat "(string \<times> string) list"

text \<open>The continuation of a task for a settlement of its kind; \<open>None\<close> when they do not fit.\<close>

fun continue :: "task \<Rightarrow> settlement \<Rightarrow> world \<Rightarrow> world option" where
  "continue (AwaitKeySystemAccess a acc) AccessSettled w = Some (onKeySystemAccess a acc w)"
| "continue (AwaitCertificate a ks kso) (CertificateCallback r) w = Some (onCertificate a ks kso r w)"
| "continue (AwaitCreateMediaKeys a kso cert) (MediaKeysSettled r) w =
     Some (onCreateMediaKeys a kso cert r w)"
| "continue (AwaitSetMediaKeys a) (SetMediaKeysSettled ok) w = Some (onSetMediaKeys a ok w)"
| "continue (AwaitAddSession a) AddSessionTurn w = Some (snd (onAddSession a w))"
| "continue (AwaitClose r d) (CloseSettled ok) w = Some (onClose r d ok w)"
| "continue t r w = None"

definition dropTask :: "nat \<Rightarrow> task list \<Rightarrow> task list" where
  "dropTask i ts = take i ts @ drop (Suc i) ts"

fun step :: "platform \<Rightarrow> heap \<Rightarrow> action \<Rightarrow> world \<Rightarrow> world" where
  "step accepts h (SetupSessions src) w = setupSessions src w"
| "step accepts h (Encrypted event options) w =
     snd (handleEncryptedEvent accepts h event options True w)"
| "step accepts h (CallStandard a) w = snd (standard5July2016 accepts a w)"
| "step accepts h (Settle i r) w =
     (if i < length (tasks w)
      then (case continue (tasks w ! i) r (w\<lparr>tasks := dropTask i (tasks w)\<rparr>) of
              None \<Rightarrow> w
            | Some w' \<Rightarrow> w')
      else w)"
| "step accepts h (KeyStatusesChange n statuses) w = snd (onKeyStatusesChange n statuses w)"

fun run :: "platform \<Rightarrow> heap \<Rightarrow> action list \<Rightarrow> world \<Rightarrow> world" where
  "run accepts h [] w = w"
| "run accepts h (act # acts) w = run accepts h acts (step accepts h act w)"

text \<open>A player before its first event: nothing on the video element, nothing recorded.\<close>

definition initialWorld :: world where
  "initialWorld =
     \<lparr>activeSrc = None, sessionsId = 0, sessions = [], replaced = (\<lambda>array. []),
      video = \<lparr>mediaKeysObject = Undefined, pendingSessionData = None, keySystem = None\<rparr>,
      keySessions = [], effects = [], tasks = []\<rparr>"


section \<open>License exchange\<close>

text \<open>
  What a license callback does, in order: a notification on the event bus, the settlement
  of the promise of the exchange, the update of the key session, a line in the error log.
  The callback receives an error or a license; \<open>err\<close> is \<open>None\<close> when the error
  argument is falsy.
\<close>

datatype observation =
    Trigger string
  | Reject js_error
  | Resolve "nat option"
  | SessionUpdate "nat option"
  | LogMessage string
  | CallGetKey nat string
  | RequestPlayreadyLicense string

text \<open>
  The callback that \<^verbatim>\<open>promisifyGetLicense\<close> hands to the license function.  There is
  no \<^verbatim>\<open>return\<close> after \<^verbatim>\<open>reject(err)\<close>, so \<^verbatim>\<open>resolve(license)\<close> is called as well;
  the promise keeps its first settlement.
\<close>

definition promisifyGetLicense :: "bool \<Rightarrow> js_error option \<Rightarrow> nat option \<Rightarrow> observation list" where
  "promisifyGetLicense eventBus err license =
     (if eventBus then [Trigger ''licenserequestattempted''] else []) @
     (case err of Some e \<Rightarrow> [Reject e] | None \<Rightarrow> []) @
     [Resolve license]"

text \<open>The callback of the \<^verbatim>\<open>webkitkeymessage\<close> listener in \<^verbatim>\<open>addKey\<close> (FairPlay).\<close>

definition addKey :: "bool \<Rightarrow> js_error option \<Rightarrow> nat option \<Rightarrow> observation list" where
  "addKey eventBus err license =
     (if eventBus then [Trigger ''licenserequestattempted''] else []) @
     (case err of Some e \<Rightarrow> [Reject e] | None \<Rightarrow> [SessionUpdate license])"

text \<open>
  \<^verbatim>\<open>addKeyToSession\<close> (PlayReady) with the callback of the request it makes: the custom
  \<^verbatim>\<open>getKey\<close> when the configuration has one (\<open>keyHook\<close>), else
  \<^verbatim>\<open>requestPlayreadyLicense\<close> at the configured URL or at the destination URL of the event.
\<close>

definition keyHook :: "keySystemConfig \<Rightarrow> nat option" where
  "keyHook cfg = (case cfg of ConfigString s \<Rightarrow> None | ConfigObject opts \<Rightarrow> getKey opts)"

definition addKeyToSession ::
  "keySystemConfig \<Rightarrow> string \<Rightarrow> bool \<Rightarrow> js_error option \<Rightarrow> nat option \<Rightarrow> observation list" where
  "addKeyToSession playreadyOptions destinationURL eventBus err key =
     (case keyHook playreadyOptions of
        Some f \<Rightarrow>
          [CallGetKey f destinationURL] @
          (case err of Some e \<Rightarrow> [LogMessage ''Unable to get key''] | None \<Rightarrow> [SessionUpdate key])
      | None \<Rightarrow>
          (let configured = (case playreadyOptions of
                               ConfigString s \<Rightarrow> Some s
                             | ConfigObject opts \<Rightarrow> url opts);
               target = (case configured of
                           None \<Rightarrow> destinationURL
                         | Some u \<Rightarrow> if u \<noteq> [] then u else destinationURL)
           in [RequestPlayreadyLicense target] @
              (if eventBus then [Trigger ''licenserequestattempted''] else []) @
              (case err of
                 Some e \<Rightarrow> [LogMessage ''Unable to request key from url'']
               | None \<Rightarrow> [SessionUpdate key])))"

text \<open>
  The number of \<^verbatim>\<open>licenserequestattempted\<close> notifications in a trace, and the number of
  them that come before the outcome reaches the caller (a settlement of the promise, an
  update of the session, or the logged error).
\<close>

definition notifications :: "observation list \<Rightarrow> nat" where
  "notifications tr = length (filter (\<lambda>x. x = Trigger ''licenserequestattempted'') tr)"

fun isOutcome :: "observation \<Rightarrow> bool" where
  "isOutcome (Reject e) = True"
| "isOutcome (Resolve l) = True"
| "isOutcome (SessionUpdate l) = True"
| "isOutcome (LogMessage m) = True"
| "isOutcome x = False"

definition notificationsBeforeOutcome :: "observation list \<Rightarrow> nat" where
  "notificationsBeforeOutcome tr = notifications (takeWhile (\<lambda>x. \<not> isOutcome x) tr)"

definition deliversOutcome :: "observation list \<Rightarrow> bool" where
  "deliversOutcome tr = list_ex isOutcome tr"

section \<open>Example inputs\<close>

text \<open>
  A store in which every buffer holds the same three bytes, so that buffers at different
  addresses are byte-equal, and a platform that accepts every key system.
\<close>

definition sameBytesHeap :: heap where
  "sameBytesHeap a = [1, 2, 3]"

definition acceptsAll :: platform where
  "acceptsAll ks so = True"

text \<open>
  Options with one key system, configured by a license URL; an encrypted event; a player
  whose registry holds one entry.
\<close>

definition widevineOptions :: emeOptions where
  "widevineOptions =
     \<lparr>keySystems = Some [(''com.widevine.alpha'', ConfigString ''https://example.com/license'')]\<rparr>"

definition encryptedEvent :: "jsref option \<Rightarrow> mediaEncryptedEvent" where
  "encryptedEvent d = \<lparr>ev_initDataType = ''cenc'', ev_initData = d\<rparr>"

definition registryOf :: "jsref \<Rightarrow> session list" where
  "registryOf d = [\<lparr>s_playready = False, s_initData = Some d\<rparr>]"

definition playerWith :: "jsref \<Rightarrow> world" where
  "playerWith d = initialWorld\<lparr>sessions := registryOf d\<rparr>"

text \<open>A store in which the buffer at address \<open>a\<close> holds the single byte \<open>a\<close>.\<close>

definition addressHeap :: heap where
  "addressHeap a = [of_nat a]"

text \<open>A PlayReady configuration with a custom \<^verbatim>\<open>getKey\<close> function.\<close>

definition playreadyGetKeyOptions :: keySystemConfig where
  "playreadyGetKeyOptions =
     ConfigObject \<lparr>url = None, getLicense = None, getCertificate = None, getKey = Some 1,
                   pssh = None, audioContentType = None, videoContentType = None\<rparr>"


text \<open>
  A player in the middle of playback: media keys 7 are set, and one key session was made for
  the registry entry.
\<close>

definition playingWorld :: world where
  "playingWorld =
     (playerWith (ArrayBuffer 1))
       \<lparr>video := \<lparr>mediaKeysObject = MediaKeys 7, pendingSessionData = Some [],
                   keySystem = Some ''com.widevine.alpha''\<rparr>,
        keySessions := [\<lparr>k_mediaKeys = 7, k_initDataType = ''cenc'',
                         k_initData = Some (ArrayBuffer 1), k_getLicense = None,
                         k_removeSession = 0, k_eventBus = True\<rparr>]\<rparr>"

text \<open>
  A store with a four-byte buffer at address 1 and three-byte buffers elsewhere: a
  \<^verbatim>\<open>Uint8Array\<close> over the first three bytes of the buffer at address 1 presents the bytes
  of the buffer at address 2.
\<close>

definition viewHeap :: heap where
  "viewHeap a = (if a = 1 then [1, 2, 3, 9] else [1, 2, 3])"

definition partialView :: jsref where
  "partialView = Uint8Array 5 1 0 3"

text \<open>
  A source change while the media keys are being created.  The player handles an encrypted
  event under the source \<^verbatim>\<open>a.mpd\<close>, which starts the setup; the source changes to
  \<^verbatim>\<open>b.mpd\<close> and an encrypted event with other initialization data is handled, whose
  \<^verbatim>\<open>addSession\<close> runs while \<^verbatim>\<open>mediaKeysObject\<close> is \<^verbatim>\<open>null\<close>; then the key system
  access of the first call settles and media keys 7 are created.  \<open>expiryActions\<close>
  continues: the key session reports an expired key, and the promise of \<^verbatim>\<open>close\<close> is
  fulfilled.
\<close>

definition sourceChangeActions :: "action list" where
  "sourceChangeActions =
     [SetupSessions (Some ''a.mpd''),
      Encrypted (encryptedEvent (Some (ArrayBuffer 1))) (Some widevineOptions),
      SetupSessions (Some ''b.mpd''),
      Encrypted (encryptedEvent (Some (ArrayBuffer 2))) (Some widevineOptions),
      Settle 1 AddSessionTurn,
      Settle 0 AccessSettled,
      Settle 0 (MediaKeysSettled (Some 7))]"

definition expiryActions :: "action list" where
  "expiryActions =
     sourceChangeActions @
     [KeyStatusesChange 0 [(''k1'', ''expired'')], Settle 1 (CloseSettled True)]"

text \<open>
  A player whose one key session was made through \<^verbatim>\<open>handleEncryptedEvent\<close> called
  without an event bus.
\<close>

definition noBusWorld :: world where
  "noBusWorld =
     run acceptsAll addressHeap
       [Settle 0 AccessSettled, Settle 0 (MediaKeysSettled (Some 7)),
        Settle 0 (SetMediaKeysSettled True), Settle 0 AddSessionTurn]
       (snd (handleEncryptedEvent acceptsAll addressHeap (encryptedEvent (Some (ArrayBuffer 1)))
               (Some widevineOptions) False initialWorld))"

text \<open>The effects of one visit of the loop over the key statuses.\<close>

definition keyStatusEffects :: "nat \<Rightarrow> string \<Rightarrow> string \<Rightarrow> effect list" where
  "keyStatusEffects n keyId status =
     (if status = ''internal-error''
      then [TriggerKeyStatusChange keyId status n,
            LogWarn ''Key status reported as internal-error'']
      else [TriggerKeyStatusChange keyId status n])"

section \<open>Counting the steps of the media-keys setup\<close>

text \<open>
  How often an effect of a kind was made, and how many promise chains wait at a stage.
\<close>

definition countEffects :: "(effect \<Rightarrow> bool) \<Rightarrow> world \<Rightarrow> nat" where
  "countEffects P w = length (filter P (effects w))"

definition countTasks :: "(task \<Rightarrow> bool) \<Rightarrow> world \<Rightarrow> nat" where
  "countTasks Q w = length (filter Q (tasks w))"

fun isSetupEntered :: "effect \<Rightarrow> bool" where
  "isSetupEntered MediaKeysSetupEntered = True"
| "isSetupEntered e = False"

fun isCreateMediaKeys :: "effect \<Rightarrow> bool" where
  "isCreateMediaKeys (CreateMediaKeys ks) = True"
| "isCreateMediaKeys e = False"

fun isVideoSetMediaKeys :: "effect \<Rightarrow> bool" where
  "isVideoSetMediaKeys (VideoSetMediaKeys mk) = True"
| "isVideoSetMediaKeys e = False"

fun beforeCreate :: "task \<Rightarrow> bool" where
  "beforeCreate (AwaitKeySystemAccess a acc) = True"
| "beforeCreate (AwaitCertificate a ks kso) = True"
| "beforeCreate t = False"

fun awaitsMediaKeys :: "task \<Rightarrow> bool" where
  "awaitsMediaKeys (AwaitCreateMediaKeys a kso cert) = True"
| "awaitsMediaKeys t = False"


text \<open>A call of \<^verbatim>\<open>standard5July2016\<close> for initialization data \<open>d\<close>.\<close>

definition widevineCall :: "jsref \<Rightarrow> callArgs" where
  "widevineCall d =
     \<lparr>a_initDataType = ''cenc'', a_initData = Some d,
      a_keySystems = [(''com.widevine.alpha'', ConfigString ''https://example.com/license'')],
      a_removeSession = 0, a_eventBus = True\<rparr>"


text \<open>
  The pending queue exists whenever \<^verbatim>\<open>mediaKeysObject\<close> is not \<^verbatim>\<open>undefined\<close>.
\<close>

definition queueReady :: "world \<Rightarrow> bool" where
  "queueReady w =
     (mediaKeysObject (video w) \<noteq> Undefined \<longrightarrow> pendingSessionData (video w) \<noteq> None)"

text \<open>
  While \<^verbatim>\<open>mediaKeysObject\<close> is \<^verbatim>\<open>undefined\<close> no promise chain of
  \<^verbatim>\<open>standard5July2016\<close> waits; only a \<^verbatim>\<open>close\<close> may be pending.
\<close>

definition chainsAfterEntry :: "world \<Rightarrow> bool" where
  "chainsAfterEntry w =
     (mediaKeysObject (video w) = Undefined \<longrightarrow>
        (\<forall>t \<in> set (tasks w). case t of AwaitClose r d \<Rightarrow> True | _ \<Rightarrow> False))"

section \<open>Proofs\<close>

lemma getUint32_setUint32: "getUint32 (setUint32 v) = v"
proof (rule bit_word_eqI)
  fix n assume "n < LENGTH(32)"
  then have n: "n < 32" by simp
  consider "n < 8" | "8 \<le> n" "n < 16" | "16 \<le> n" "n < 24" | "24 \<le> n"
    by linarith
  then show "bit (getUint32 (setUint32 v)) n = bit v n"
    using n by cases (auto simp add: getUint32_def setUint32_def bit_simps)
qed

lemma length_setUint32: "length (setUint32 v) = 4"
  by (simp add: setUint32_def)

lemma u16_join: "(ucast (ucast c :: byte) OR push_bit 8 (ucast (ucast (drop_bit 8 c) :: byte)) :: u16) = c"
proof (rule bit_word_eqI)
  fix n assume "n < LENGTH(16)"
  then have n: "n < 16" by simp
  consider "n < 8" | "8 \<le> n" by linarith
  then show "bit (ucast (ucast c :: byte) OR push_bit 8 (ucast (ucast (drop_bit 8 c) :: byte)) :: u16) n = bit c n"
    using n by cases (auto simp add: bit_simps)
qed

lemma u16s_of_bytes_step:
  "u16s_of_bytes le (u16_bytes le c @ bs) = c # u16s_of_bytes le bs"
  by (cases le) (simp_all add: u16_bytes_def u16_of_bytes_def u16_join)

lemma u16s_roundtrip: "u16s_of_bytes le (concat (map (u16_bytes le) cs)) = cs"
  by (induction cs) (simp_all add: u16s_of_bytes_step)

lemma length_u16_bytes: "length (u16_bytes le c) = 2"
  by (simp add: u16_bytes_def)

lemma length_u16s: "length (concat (map (u16_bytes le) cs)) = 2 * length cs"
  by (induction cs) (simp_all add: length_u16_bytes)

declare fillCodeUnits.simps [simp del]

lemma fillCodeUnits_eq:
  "length array = length string \<Longrightarrow> take i array = take i string \<Longrightarrow> i \<le> length string \<Longrightarrow>
   fillCodeUnits string i array = string"
proof (induction string i array rule: fillCodeUnits.induct)
  case (1 string i array)
  show ?case
  proof (cases "i < length string")
    case True
    have "take (Suc i) (array[i := string ! i]) = take (Suc i) string"
      using True "1.prems" by (simp add: take_Suc_conv_app_nth)
    then have "fillCodeUnits string (Suc i) (array[i := string ! i]) = string"
      using True "1.IH" "1.prems" by simp
    then show ?thesis
      using True by (subst fillCodeUnits.simps) simp
  next
    case False
    then have "i = length string"
      using "1.prems" by simp
    then have "array = string"
      using "1.prems"(1,2) by (metis take_all order_refl)
    then show ?thesis
      using False by (subst fillCodeUnits.simps) (simp only: if_False)
  qed
qed

lemma stringToUint16Array_eq: "stringToUint16Array s = s"
  by (simp add: stringToUint16Array_def fillCodeUnits_eq)

lemma writeAt_app:
  "length pre = off \<Longrightarrow> length bs = length old \<Longrightarrow>
   writeAt (pre @ old @ post) off bs = pre @ bs @ post"
  by (simp add: writeAt_def)

lemma concat_layout:
  assumes "even (length initData)"
  shows "concatInitDataIdAndCertificate le initData (IdString s) cert =
     Inr (initData @ setUint32 (of_nat (2 * length s)) @ concat (map (u16_bytes le) s)
            @ setUint32 (of_nat (length cert)) @ cert)"
proof -
  define n k c where "n = length initData" and "k = 2 * length s" and "c = length cert"
  define idb where "idb = concat (map (u16_bytes le) s)"
  define L1 L2 where "L1 = setUint32 (of_nat k)" and "L2 = setUint32 (of_nat c)"
  define z :: "nat \<Rightarrow> byte list" where "z = (\<lambda>m. replicate m 0)"
  have lens: "length initData = n" "length idb = k" "length L1 = 4" "length L2 = 4"
    "length cert = c" "\<And>m. length (z m) = m"
    by (simp_all add: n_def k_def c_def idb_def L1_def L2_def z_def length_u16s length_setUint32)
  have b0: "replicate (n + 4 + k + 4 + c) (0::byte) = [] @ z n @ (z 4 @ z k @ z 4 @ z c)"
    by (simp only: z_def replicate_add append_Nil append_assoc)
  have w1: "writeAt ([] @ z n @ (z 4 @ z k @ z 4 @ z c)) 0 initData =
      [] @ initData @ (z 4 @ z k @ z 4 @ z c)"
    by (rule writeAt_app) (simp_all add: lens)
  have w2: "writeAt (initData @ z 4 @ (z k @ z 4 @ z c)) n L1 = initData @ L1 @ (z k @ z 4 @ z c)"
    by (rule writeAt_app) (simp_all add: lens)
  have w3: "writeAt ((initData @ L1) @ z k @ (z 4 @ z c)) (n + 4) idb
      = (initData @ L1) @ idb @ (z 4 @ z c)"
    by (rule writeAt_app) (simp_all add: lens)
  have w4: "writeAt ((initData @ L1 @ idb) @ z 4 @ z c) (n + 4 + k) L2
      = (initData @ L1 @ idb) @ L2 @ z c"
    by (rule writeAt_app) (simp_all add: lens)
  have w5: "writeAt ((initData @ L1 @ idb @ L2) @ z c @ []) (n + 4 + k + 4) cert
      = (initData @ L1 @ idb @ L2) @ cert @ []"
    by (rule writeAt_app) (simp_all add: lens)
  have ev: "(n + 4) mod 2 = 0" using assms unfolding n_def by presburger
  have "concatInitDataIdAndCertificate le initData (IdString s) cert =
      Inr (writeAt (writeAt (writeAt (writeAt (writeAt (replicate (n + 4 + k + 4 + c) 0) 0 initData)
          n L1) (n + 4) idb) (n + 4 + k) L2) (n + 4 + k + 4) cert)"
    unfolding concatInitDataIdAndCertificate_def Let_def
    using ev by (simp add: stringToUint16Array_eq n_def k_def c_def idb_def L1_def L2_def
        del: replicate_add)
  also have "\<dots> = Inr (initData @ L1 @ idb @ L2 @ cert)"
    unfolding b0 w1 using w2 w3 w4 w5 by simp
  finally show ?thesis
    by (simp add: L1_def L2_def idb_def k_def c_def)
qed

lemma unat_of_nat_u32: "m < 2 ^ 32 \<Longrightarrow> unat (of_nat m :: u32) = m"
  by (simp add: unat_of_nat)

lemma decodePayload_layout:
  assumes k: "2 * length s < 2 ^ 32" and c: "length cert < 2 ^ 32"
  shows "decodePayload le (length initData)
           (initData @ setUint32 (of_nat (2 * length s)) @ concat (map (u16_bytes le) s)
              @ setUint32 (of_nat (length cert)) @ cert)
         = Some (initData, s, cert)"
proof -
  define idb where "idb = concat (map (u16_bytes le) s)"
  define L1 L2 :: "byte list"
    where "L1 = setUint32 (of_nat (2 * length s))" and "L2 = setUint32 (of_nat (length cert))"
  have lens: "length idb = 2 * length s" "length L1 = 4" "length L2 = 4"
    by (simp_all add: idb_def L1_def L2_def length_u16s length_setUint32)
  have g1: "unat (getUint32 L1) = 2 * length s"
    unfolding L1_def getUint32_setUint32 by (rule unat_of_nat_u32 [OF k])
  have g2: "unat (getUint32 L2) = length cert"
    unfolding L2_def getUint32_setUint32 by (rule unat_of_nat_u32 [OF c])
  have "decodePayload le (length initData) (initData @ L1 @ idb @ L2 @ cert)
      = Some (initData, u16s_of_bytes le idb, cert)"
    unfolding decodePayload_def Let_def
    by (simp add: lens g1 g2)
  then show ?thesis
    by (simp add: idb_def L1_def L2_def u16s_roundtrip)
qed

text \<open>
  Claim C8, as amended.  For initialization data of even byte length, a content identifier
  string \<open>s\<close> and a certificate whose byte lengths fit the 32-bit prefixes,
  \<^verbatim>\<open>concatInitDataIdAndCertificate\<close> returns the initialization data, the four-byte
  little-endian byte length of the identifier, the identifier as UTF-16 code units (in
  platform byte order), the four-byte little-endian byte length of the certificate and the
  certificate; reading that layout back gives the three inputs unchanged.
\<close>

theorem concatInitDataIdAndCertificate_roundtrip:
  assumes "even (length initData)"
    and "2 * length s < 2 ^ 32"
    and "length cert < 2 ^ 32"
  shows "concatInitDataIdAndCertificate le initData (IdString s) cert =
           Inr (initData @ setUint32 (of_nat (2 * length s)) @ concat (map (u16_bytes le) s)
                  @ setUint32 (of_nat (length cert)) @ cert)
       \<and> decodePayload le (length initData)
           (initData @ setUint32 (of_nat (2 * length s)) @ concat (map (u16_bytes le) s)
              @ setUint32 (of_nat (length cert)) @ cert)
         = Some (initData, s, cert)"
  using concat_layout [OF assms(1)] decodePayload_layout [OF assms(2,3)] by simp

theorem concatInitDataIdAndCertificate_roundtrip_witness:
  "concatInitDataIdAndCertificate True [115, 0, 107, 0] (IdString [97, 98]) [1, 2, 3] =
     Inr ([115, 0, 107, 0] @ [4, 0, 0, 0] @ [97, 0, 98, 0] @ [3, 0, 0, 0] @ [1, 2, 3])
   \<and> decodePayload True 4
         ([115, 0, 107, 0] @ [4, 0, 0, 0] @ [97, 0, 98, 0] @ [3, 0, 0, 0] @ [1, 2, 3])
       = Some ([115, 0, 107, 0], [97, 98], [1, 2, 3])"
proof -
  have e: "even (length [115, 0, 107, 0 :: byte])" by simp
  have k: "2 * length [97, 98 :: u16] < 2 ^ 32" by simp
  have c: "length [1, 2, 3 :: byte] < 2 ^ 32" by simp
  have l: "length [115, 0, 107, 0 :: byte] = 4" by simp
  show ?thesis
    using concatInitDataIdAndCertificate_roundtrip [OF e k c, of True]
    unfolding l by (simp add: setUint32_def u16_bytes_def)
qed

text \<open>
  Claim C8 as stated fails for initialization data of odd byte length: the offset of the
  identifier is then odd, and \<^verbatim>\<open>new Uint16Array(buffer, offset, id.length)\<close> throws.
\<close>

theorem concatInitDataIdAndCertificate_odd_counterexample:
  "concatInitDataIdAndCertificate True [1] (IdString []) [] = Inl RangeError"
  by (simp add: concatInitDataIdAndCertificate_def Let_def)

declare bytesEqualFrom.simps [simp del]

lemma bytesEqualFrom_iff:
  "length view1 = length view2 \<Longrightarrow> i \<le> length view1 \<Longrightarrow>
   bytesEqualFrom view1 view2 i = (drop i view1 = drop i view2)"
proof (induction view1 view2 i rule: bytesEqualFrom.induct)
  case (1 view1 view2 i)
  show ?case
  proof (cases "i < length view1")
    case False
    then show ?thesis
      using "1.prems" by (subst bytesEqualFrom.simps) simp
  next
    case True
    then have d: "drop i view1 = view1 ! i # drop (Suc i) view1"
      "drop i view2 = view2 ! i # drop (Suc i) view2"
      using "1.prems" by (simp_all add: Cons_nth_drop_Suc)
    show ?thesis
    proof (cases "view1 ! i = view2 ! i")
      case False
      then show ?thesis
        using True d by (subst bytesEqualFrom.simps) simp
    next
      case eq: True
      have "bytesEqualFrom view1 view2 (Suc i) = (drop (Suc i) view1 = drop (Suc i) view2)"
        using "1.IH" True eq "1.prems" by simp
      then show ?thesis
        using True eq d by (subst bytesEqualFrom.simps) simp
    qed
  qed
qed

lemma arrayBuffersEqual_Some:
  "arrayBuffersEqual h (Some b1) (Some b2) = Inr (h b1 = h b2)"
proof (cases "length (h b1) = length (h b2)")
  case True
  then show ?thesis
    by (auto simp add: arrayBuffersEqual_def bytesEqualFrom_iff)
next
  case False
  then show ?thesis
    by (auto simp add: arrayBuffersEqual_def)
qed

lemma arrayBuffersEqual_None: "arrayBuffersEqual h (Some b1) None = Inl TypeError"
  by (simp add: arrayBuffersEqual_def)

lemma arrayBufferFrom_Some: "\<exists>b. arrayBufferFrom (Some d) = Some b \<and> initDataBytes h d = h b"
  by (cases d) (simp_all add: initDataBytes_def)

text \<open>Some entry of the registry holds initialization data with the bytes of \<open>d\<close>.\<close>

lemma hasSession_Some:
  "hasSession h ss (Some d) =
     Inr (\<exists>s \<in> set ss. \<exists>e. s_initData s = Some e \<and> initDataBytes h e = initDataBytes h d)"
proof (induction ss)
  case Nil
  show ?case by simp
next
  case (Cons s ss)
  show ?case
  proof (cases "s_initData s")
    case None
    with Cons show ?thesis by simp
  next
    case (Some e)
    obtain b1 where b1: "arrayBufferFrom (Some e) = Some b1" "initDataBytes h e = h b1"
      using arrayBufferFrom_Some by blast
    obtain b2 where b2: "arrayBufferFrom (Some d) = Some b2" "initDataBytes h d = h b2"
      using arrayBufferFrom_Some by blast
    show ?thesis
      using Some Cons b1 b2 by (cases "h b1 = h b2") (auto simp add: arrayBuffersEqual_Some)
  qed
qed

lemma hasSession_None:
  "hasSession h ss None =
     (if \<forall>s \<in> set ss. s_initData s = None then Inr False else Inl TypeError)"
proof (induction ss)
  case Nil
  show ?case by simp
next
  case (Cons s ss)
  show ?case
  proof (cases "s_initData s")
    case None
    with Cons show ?thesis by simp
  next
    case (Some e)
    obtain b1 where b1: "arrayBufferFrom (Some e) = Some b1"
      using arrayBufferFrom_Some by blast
    show ?thesis
      using Some b1 by (simp add: arrayBuffersEqual_None)
  qed
qed

lemma removeSession_first:
  "removeSession ss d =
     takeWhile (\<lambda>s. s_initData s \<noteq> d) ss @ drop 1 (dropWhile (\<lambda>s. s_initData s \<noteq> d) ss)"
  by (induction ss) simp_all

lemma removeSession_absent:
  "\<forall>s \<in> set ss. s_initData s \<noteq> d \<Longrightarrow> removeSession ss d = ss"
  by (induction ss) simp_all

lemma set_removeSession_subset: "set (removeSession ss d) \<subseteq> set ss"
  by (induction ss) auto

lemma noDuplicate_removeSession:
  "noDuplicateInitData h ss \<Longrightarrow> noDuplicateInitData h (removeSession ss d)"
proof (induction ss)
  case Nil
  show ?case by simp
next
  case (Cons s ss)
  have sub: "set (removeSession ss d) \<subseteq> set ss" by (rule set_removeSession_subset)
  from Cons show ?case
    using sub by (auto simp add: list_all_iff split: option.splits)
qed

lemma noDuplicate_append:
  "noDuplicateInitData h ss \<Longrightarrow>
   \<forall>s \<in> set ss. \<forall>e. s_initData s = Some e \<longrightarrow> initDataBytes h e \<noteq> initDataBytes h d \<Longrightarrow>
   noDuplicateInitData h (ss @ [\<lparr>s_playready = p, s_initData = Some d\<rparr>])"
  by (induction ss) (auto simp add: list_all_iff split: option.splits)

text \<open>
  The registry invariant in other words: the byte contents of the entries that hold
  initialization data are pairwise distinct.
\<close>

lemma set_entry_bytes:
  "set (List.map_filter (\<lambda>s. map_option (initDataBytes h) (s_initData s)) ss) =
     {initDataBytes h e | e s. s \<in> set ss \<and> s_initData s = Some e}"
proof (induction ss)
  case Nil
  show ?case by (simp add: List.map_filter_simps)
next
  case (Cons s ss)
  then show ?case
    by (cases "s_initData s") (auto simp add: List.map_filter_simps)
qed

lemma noDuplicateInitData_distinct:
  "noDuplicateInitData h ss =
     distinct (List.map_filter (\<lambda>s. map_option (initDataBytes h) (s_initData s)) ss)"
proof (induction ss)
  case Nil
  show ?case by (simp add: List.map_filter_simps)
next
  case (Cons s ss)
  show ?case
  proof (cases "s_initData s")
    case None
    with Cons show ?thesis by (simp add: List.map_filter_simps)
  next
    case (Some d)
    have "list_all (\<lambda>t. case s_initData t of None \<Rightarrow> True
                          | Some e \<Rightarrow> initDataBytes h e \<noteq> initDataBytes h d) ss
        = (initDataBytes h d \<notin>
             set (List.map_filter (\<lambda>s. map_option (initDataBytes h) (s_initData s)) ss))"
      unfolding set_entry_bytes
      by (auto simp add: list_all_iff split: option.splits)
    with Cons Some show ?thesis by (simp add: List.map_filter_simps)
  qed
qed

subsection \<open>What each continuation leaves alone\<close>

lemma sessions_emit [simp]: "sessions (emit es w) = sessions w"
  by (simp add: emit_def)

lemma sessions_spawn [simp]: "sessions (spawn t w) = sessions w"
  by (simp add: spawn_def)

lemma sessions_makeNewRequest [simp]:
  "sessions (makeNewRequest mk t d g r b w) = sessions w"
  by (simp add: makeNewRequest_def)

lemma sessions_addSession [simp]: "sessions (snd (addSession t d g r b w)) = sessions w"
  by (simp add: addSession_def split: mediaKeysSlot.splits option.splits)

lemma sessions_drainPending [simp]: "sessions (drainPending mk g r b q w) = sessions w"
  by (induction q arbitrary: w) simp_all

lemma sessions_setMediaKeys [simp]: "sessions (snd (setMediaKeys mk c g r b w)) = sessions w"
  by (simp add: setMediaKeys_def Let_def split: option.splits)

lemma sessions_standard5July2016 [simp]:
  "sessions (snd (standard5July2016 accepts a w)) = sessions w"
  by (simp add: standard5July2016_def Let_def split: option.splits)

lemma sessions_chainFailed [simp]: "sessions (chainFailed a w) = sessions w"
  by (simp add: chainFailed_def)

lemma sessions_onKeySystemAccess [simp]: "sessions (onKeySystemAccess a acc w) = sessions w"
  by (simp add: onKeySystemAccess_def Let_def split: access.splits option.splits sum.splits)

lemma sessions_onCertificate [simp]: "sessions (onCertificate a ks kso r w) = sessions w"
  by (simp add: onCertificate_def split: sum.splits)

lemma sessions_onCreateMediaKeys [simp]:
  "sessions (onCreateMediaKeys a kso c r w) = sessions w"
proof (cases r)
  case None
  then show ?thesis by (simp add: onCreateMediaKeys_def)
next
  case (Some mk)
  obtain e w1 where s: "setMediaKeys mk c (Some (getLicense kso, a_eventBus a))
      (a_removeSession a) (a_eventBus a) w = (e, w1)"
    by (cases "setMediaKeys mk c (Some (getLicense kso, a_eventBus a))
      (a_removeSession a) (a_eventBus a) w")
  have "sessions w1 = sessions w"
    using sessions_setMediaKeys [of mk c "Some (getLicense kso, a_eventBus a)"
      "a_removeSession a" "a_eventBus a" w] s by simp
  then show ?thesis
    using Some s by (cases e) (simp_all add: onCreateMediaKeys_def)
qed

lemma sessions_onSetMediaKeys [simp]: "sessions (onSetMediaKeys a ok w) = sessions w"
  by (simp add: onSetMediaKeys_def)

lemma sessions_onAddSession [simp]: "sessions (snd (onAddSession a w)) = sessions w"
  by (simp add: onAddSession_def split: option.splits sum.splits)

lemma sessions_onKeyStatusesChange [simp]:
  "sessions (snd (onKeyStatusesChange n statuses w)) = sessions w"
  by (simp add: onKeyStatusesChange_def Let_def split: prod.splits sum.splits)

lemma sessions_boundRemoveSession:
  "sessions (boundRemoveSession r d w) =
     (if r = sessionsId w then removeSession (sessions w) d else sessions w)"
  by (simp add: boundRemoveSession_def)

lemma sessions_onClose:
  "sessions (onClose r d ok w) =
     (if ok \<and> r = sessionsId w then removeSession (sessions w) d else sessions w)"
  by (simp add: onClose_def sessions_boundRemoveSession)

lemma sessions_setupSessions:
  "sessions (setupSessions src w) = (if src \<noteq> activeSrc w then [] else sessions w)"
  by (simp add: setupSessions_def)


lemma effects_drainPending:
  "effects (drainPending mk g r b q w) =
     effects w @
       concat (map (\<lambda>p. [CreateSession mk, GenerateRequest (p_initDataType p) (p_initData p)]) q)"
  by (induction q arbitrary: w) (simp_all add: makeNewRequest_def)

lemma video_drainPending [simp]: "video (drainPending mk g r b q w) = video w"
  by (induction q arbitrary: w) (simp_all add: makeNewRequest_def)

subsection \<open>The registry under the event loop\<close>

lemma sessions_handleEncryptedEvent:
  "sessions (snd (handleEncryptedEvent accepts h event options bus w)) = sessions w
   \<or> (\<exists>d. hasSession h (sessions w) (Some d) = Inr False
          \<and> sessions (snd (handleEncryptedEvent accepts h event options bus w)) =
              sessions w @ [\<lparr>s_playready = False, s_initData = Some d\<rparr>])"
  by (auto simp add: handleEncryptedEvent_def Let_def split_beta
      split: option.splits access.splits sum.splits bool.splits)

lemma noDuplicate_handleEncryptedEvent:
  assumes "noDuplicateInitData h (sessions w)"
  shows "noDuplicateInitData h (sessions (snd (handleEncryptedEvent accepts h event options bus w)))"
proof -
  from sessions_handleEncryptedEvent [of accepts h event options bus w]
  consider "sessions (snd (handleEncryptedEvent accepts h event options bus w)) = sessions w"
    | d where "hasSession h (sessions w) (Some d) = Inr False"
      "sessions (snd (handleEncryptedEvent accepts h event options bus w)) =
         sessions w @ [\<lparr>s_playready = False, s_initData = Some d\<rparr>]"
    by blast
  then show ?thesis
  proof cases
    case 1
    with assms show ?thesis by simp
  next
    case (2 d)
    from 2(1) have "\<forall>s \<in> set (sessions w). \<forall>e. s_initData s = Some e \<longrightarrow>
        initDataBytes h e \<noteq> initDataBytes h d"
      by (simp add: hasSession_Some)
    with assms 2(2) show ?thesis
      by (simp add: noDuplicate_append)
  qed
qed

lemma sessions_continue:
  "continue t r w = Some w' \<Longrightarrow>
   sessions w' = sessions w \<or> (\<exists>d. sessions w' = removeSession (sessions w) d)"
  by (cases "(t, r, w)" rule: continue.cases) (fastforce simp add: sessions_onClose)+

lemma noDuplicate_step:
  assumes "noDuplicateInitData h (sessions w)"
  shows "noDuplicateInitData h (sessions (step accepts h act w))"
proof (cases act)
  case (SetupSessions src)
  with assms show ?thesis by (simp add: sessions_setupSessions)
next
  case (Encrypted event options)
  with assms show ?thesis by (simp add: noDuplicate_handleEncryptedEvent)
next
  case (CallStandard a)
  with assms show ?thesis by simp
next
  case (Settle i r)
  show ?thesis
  proof (cases "i < length (tasks w)")
    case False
    with Settle assms show ?thesis by simp
  next
    case True
    show ?thesis
    proof (cases "continue (tasks w ! i) r (w\<lparr>tasks := dropTask i (tasks w)\<rparr>)")
      case None
      with Settle True assms show ?thesis by simp
    next
      case (Some w')
      from sessions_continue [OF Some]
      have "sessions w' = sessions w \<or> (\<exists>d. sessions w' = removeSession (sessions w) d)"
        by simp
      then have "noDuplicateInitData h (sessions w')"
        using assms by (auto simp add: noDuplicate_removeSession)
      with Settle True Some show ?thesis by simp
    qed
  qed
next
  case (KeyStatusesChange n statuses)
  with assms show ?thesis by simp
qed

lemma noDuplicate_run:
  "noDuplicateInitData h (sessions w) \<Longrightarrow> noDuplicateInitData h (sessions (run accepts h acts w))"
  by (induction acts arbitrary: w) (simp_all add: noDuplicate_step)

lemma handleEncryptedEvent_known:
  assumes "keySystems opts = Some kss"
    and "getSupportedKeySystem accepts kss = Some (Granted ks)"
    and "initDataFor kss ks event = Some d"
    and "\<exists>s \<in> set (sessions w). \<exists>e. s_initData s = Some e \<and> initDataBytes h e = initDataBytes h d"
  shows "handleEncryptedEvent accepts h event (Some opts) bus w = (Inr Fulfilled, w)"
  using assms by (simp add: handleEncryptedEvent_def hasSession_Some)

text \<open>
  Claim C1, as amended.  The registry compares the buffers that \<^verbatim>\<open>arrayBufferFrom\<close>
  selects: an \<^verbatim>\<open>ArrayBuffer\<close> itself, and for a typed array the whole buffer under the
  view.  Whatever the event loop does and in whatever order (continuations of encrypted
  events, settled promise chains, key-status reports, a change of source), a registry in
  which no two entries have byte-equal buffers stays so; and the continuation of an
  encrypted event whose initialization data has a buffer byte-equal to that of an entry of
  the registry leaves the registry as it is.
\<close>

theorem handleEncryptedEvent_no_duplicate_sessions:
  "(noDuplicateInitData h (sessions w) \<longrightarrow>
      noDuplicateInitData h (sessions (run accepts h acts w)))
   \<and> (keySystems opts = Some kss \<and> getSupportedKeySystem accepts kss = Some (Granted ks)
        \<and> initDataFor kss ks event = Some d
        \<and> (\<exists>s \<in> set (sessions w). \<exists>e. s_initData s = Some e
              \<and> initDataBytes h e = initDataBytes h d)
      \<longrightarrow> sessions (step accepts h (Encrypted event (Some opts)) w) = sessions w)"
  by (simp add: noDuplicate_run handleEncryptedEvent_known)

theorem handleEncryptedEvent_no_duplicate_sessions_witness:
  "noDuplicateInitData sameBytesHeap
     (sessions (run acceptsAll sameBytesHeap
        [Encrypted (encryptedEvent (Some (ArrayBuffer 2))) (Some widevineOptions)]
        (playerWith (ArrayBuffer 1))))
   \<and> sessions (step acceptsAll sameBytesHeap
        (Encrypted (encryptedEvent (Some (ArrayBuffer 2))) (Some widevineOptions))
        (playerWith (ArrayBuffer 1))) = registryOf (ArrayBuffer 1)"
  using handleEncryptedEvent_no_duplicate_sessions
    [of sameBytesHeap "playerWith (ArrayBuffer 1)" acceptsAll
        "[Encrypted (encryptedEvent (Some (ArrayBuffer 2))) (Some widevineOptions)]"
        widevineOptions "[(''com.widevine.alpha'', ConfigString ''https://example.com/license'')]"
        "''com.widevine.alpha''" "encryptedEvent (Some (ArrayBuffer 2))" "ArrayBuffer 2"]
  by (simp add: playerWith_def registryOf_def initialWorld_def widevineOptions_def
      encryptedEvent_def acceptsAll_def initDataFor_def psshOf_def initDataBytes_def
      sameBytesHeap_def)

text \<open>
  Claim C1 as stated fails for a typed array that shows only a part of its buffer.  The
  first event carries a \<^verbatim>\<open>Uint8Array\<close> over the first three bytes of a four-byte
  buffer, the second an \<^verbatim>\<open>ArrayBuffer\<close> of the same three bytes.  The two pieces of
  initialization data are byte-equal, the buffers that \<^verbatim>\<open>hasSession\<close> compares are
  not, and the registry gets an entry for each.
\<close>

theorem handleEncryptedEvent_partial_view_counterexample:
  "ownBytes viewHeap partialView = ownBytes viewHeap (ArrayBuffer 2)
   \<and> hasSession viewHeap (registryOf partialView) (Some (ArrayBuffer 2)) = Inr False
   \<and> sessions (run acceptsAll viewHeap
        [Encrypted (encryptedEvent (Some partialView)) (Some widevineOptions),
         Encrypted (encryptedEvent (Some (ArrayBuffer 2))) (Some widevineOptions)]
        initialWorld)
       = [\<lparr>s_playready = False, s_initData = Some partialView\<rparr>,
          \<lparr>s_playready = False, s_initData = Some (ArrayBuffer 2)\<rparr>]"
  by (simp add: partialView_def viewHeap_def registryOf_def arrayBuffersEqual_Some
      handleEncryptedEvent_def standard5July2016_def Let_def initialWorld_def
      widevineOptions_def encryptedEvent_def acceptsAll_def initDataFor_def psshOf_def
      emit_def spawn_def)

text \<open>
  Claim C3, as amended.  \<^verbatim>\<open>hasSession\<close> decides by the bytes: it answers alike for two
  pieces of initialization data of equal length and equal bytes at every index.
  \<^verbatim>\<open>removeSession\<close> decides by the identity of the reference: it removes the first entry
  whose stored \<^verbatim>\<open>initData\<close> is the argument itself, and nothing else.
\<close>

theorem registry_matching:
  assumes "length (initDataBytes h d1) = length (initDataBytes h d2)"
    and "\<forall>i < length (initDataBytes h d1). initDataBytes h d1 ! i = initDataBytes h d2 ! i"
  shows "hasSession h ss (Some d1) = hasSession h ss (Some d2)
       \<and> removeSession ss d =
           takeWhile (\<lambda>s. s_initData s \<noteq> d) ss @ drop 1 (dropWhile (\<lambda>s. s_initData s \<noteq> d) ss)"
proof -
  have "initDataBytes h d1 = initDataBytes h d2"
    using assms by (simp add: nth_equalityI)
  then show ?thesis
    by (simp add: hasSession_Some removeSession_first)
qed

theorem registry_matching_witness:
  "hasSession sameBytesHeap (registryOf (ArrayBuffer 1)) (Some (ArrayBuffer 1)) =
     hasSession sameBytesHeap (registryOf (ArrayBuffer 1)) (Some (Uint8Array 5 2 0 3))
   \<and> removeSession (registryOf (ArrayBuffer 1)) (Some (ArrayBuffer 1)) = []"
  using registry_matching
    [of sameBytesHeap "ArrayBuffer 1" "Uint8Array 5 2 0 3" "registryOf (ArrayBuffer 1)"
        "Some (ArrayBuffer 1)"]
  by (simp add: initDataBytes_def sameBytesHeap_def registryOf_def)

text \<open>
  Claim C3 as stated fails for \<^verbatim>\<open>removeSession\<close>: given a second buffer with the bytes of
  the stored one, \<^verbatim>\<open>hasSession\<close> finds the entry and \<^verbatim>\<open>removeSession\<close> leaves it in
  the registry.
\<close>

theorem removeSession_identity_counterexample:
  "hasSession sameBytesHeap (registryOf (ArrayBuffer 1)) (Some (ArrayBuffer 2)) = Inr True
   \<and> removeSession (registryOf (ArrayBuffer 1)) (Some (ArrayBuffer 2)) = registryOf (ArrayBuffer 1)"
  by (simp add: hasSession_Some registryOf_def initDataBytes_def sameBytesHeap_def)

subsection \<open>An encrypted event without initialization data\<close>

lemma handleEncryptedEvent_no_initData:
  assumes "keySystems opts = Some kss"
    and "getSupportedKeySystem accepts kss = Some (Granted ks)"
    and "initDataFor kss ks event = None"
  shows "handleEncryptedEvent accepts h event (Some opts) bus w =
     (if \<forall>s \<in> set (sessions w). s_initData s = None then (Inr Fulfilled, w)
      else (Inr (Rejected TypeError), w))"
  using assms by (simp add: handleEncryptedEvent_def hasSession_None)

text \<open>
  Claim C10 at an input where the code departs from it.  The registry holds one entry, the
  event has no initialization data and the configuration has no override:
  \<^verbatim>\<open>hasSession\<close> is evaluated before \<^verbatim>\<open>!initData\<close>, reads \<^verbatim>\<open>byteLength\<close> of
  \<^verbatim>\<open>null\<close>, and the returned promise is rejected with the \<^verbatim>\<open>TypeError\<close>.  Nothing is
  added to the registry and no session is requested.
\<close>

theorem handleEncryptedEvent_null_initData_rejects:
  "handleEncryptedEvent acceptsAll sameBytesHeap (encryptedEvent None) (Some widevineOptions) True
     (playerWith (ArrayBuffer 1))
   = (Inr (Rejected TypeError), playerWith (ArrayBuffer 1))"
  by (simp add: handleEncryptedEvent_no_initData [where ks = "''com.widevine.alpha''"]
      widevineOptions_def acceptsAll_def initDataFor_def psshOf_def encryptedEvent_def
      playerWith_def registryOf_def)

lemma handleEncryptedEvent_null_initData_empty_registry:
  "handleEncryptedEvent acceptsAll sameBytesHeap (encryptedEvent None) (Some widevineOptions) True
     initialWorld
   = (Inr Fulfilled, initialWorld)"
  by (simp add: handleEncryptedEvent_no_initData [where ks = "''com.widevine.alpha''"]
      widevineOptions_def acceptsAll_def initDataFor_def psshOf_def encryptedEvent_def
      initialWorld_def)

subsection \<open>Change of source\<close>

text \<open>
  Claim C5, as amended.  When the current source differs from the recorded one,
  \<^verbatim>\<open>setupSessions\<close> records it and installs an empty registry, so no entry made under
  the old source is in the registry that the next signal is checked against.  It leaves
  the video element alone: the pending queue, \<^verbatim>\<open>mediaKeysObject\<close> and
  \<^verbatim>\<open>keySystem\<close> stay as they were, and so do the waiting promise chains and the key
  sessions.
\<close>

theorem setupSessions_resets_registry:
  assumes "src \<noteq> activeSrc w"
  shows "sessions (setupSessions src w) = []
       \<and> activeSrc (setupSessions src w) = src
       \<and> video (setupSessions src w) = video w
       \<and> tasks (setupSessions src w) = tasks w
       \<and> keySessions (setupSessions src w) = keySessions w"
  using assms by (simp add: setupSessions_def)

theorem setupSessions_resets_registry_witness:
  "sessions (setupSessions (Some ''b.mpd'') (playerWith (ArrayBuffer 1))) = []
   \<and> activeSrc (setupSessions (Some ''b.mpd'') (playerWith (ArrayBuffer 1))) = Some ''b.mpd''
   \<and> video (setupSessions (Some ''b.mpd'') (playerWith (ArrayBuffer 1))) =
       \<lparr>mediaKeysObject = Undefined, pendingSessionData = None, keySystem = None\<rparr>"
  using setupSessions_resets_registry [of "Some ''b.mpd''" "playerWith (ArrayBuffer 1)"]
  by (simp add: playerWith_def initialWorld_def)

text \<open>
  Claim C5 as stated fails for the pending queue.  Two encrypted events arrive for the
  source \<open>a.mpd\<close>; the first starts the creation of the media keys, the second is queued.
  After the change to \<open>b.mpd\<close> the queued pair of the old source is still in the queue.
\<close>

theorem setupSessions_keeps_pending_counterexample:
  "pendingSessionData (video (run acceptsAll addressHeap
      [SetupSessions (Some ''a.mpd''),
       Encrypted (encryptedEvent (Some (ArrayBuffer 1))) (Some widevineOptions),
       Encrypted (encryptedEvent (Some (ArrayBuffer 2))) (Some widevineOptions),
       Settle 1 AddSessionTurn,
       SetupSessions (Some ''b.mpd'')]
      initialWorld))
   = Some [\<lparr>p_initDataType = ''cenc'', p_initData = Some (ArrayBuffer 2)\<rparr>]"
  by (simp add: initialWorld_def setupSessions_def handleEncryptedEvent_def widevineOptions_def
      acceptsAll_def initDataFor_def psshOf_def encryptedEvent_def arrayBuffersEqual_Some
      addressHeap_def standard5July2016_def emit_def spawn_def Let_def
      dropTask_def onAddSession_def truthy_def addSession_def)

subsection \<open>Expiry of a key\<close>

lemma keyStatusesLoop_eq:
  "keyStatusesLoop True n statuses (expired, es) =
     Inr (expired \<or> (\<exists>keyId. (keyId, ''expired'') \<in> set statuses),
          es @ concat (map (\<lambda>(keyId, status). keyStatusEffects n keyId status) statuses))"
proof (induction statuses arbitrary: expired es)
  case Nil
  show ?case by simp
next
  case (Cons p statuses)
  obtain keyId status where p: "p = (keyId, status)" by (cases p)
  consider "status = ''expired''" | "status = ''internal-error''"
    | "status \<noteq> ''expired''" "status \<noteq> ''internal-error''"
    by blast
  then show ?case
  proof cases
    case 1
    then show ?thesis using Cons.IH p by (auto simp add: keyStatusEffects_def)
  next
    case 2
    then show ?thesis using Cons.IH p by (auto simp add: keyStatusEffects_def)
  next
    case 3
    then show ?thesis using Cons.IH p by (auto simp add: keyStatusEffects_def)
  qed
qed

lemma keyStatusesLoop_no_bus:
  "keyStatusesLoop False n statuses acc =
     (if statuses = [] then Inr acc else Inl TypeError)"
proof (cases statuses)
  case Nil
  then show ?thesis by simp
next
  case (Cons p rest)
  then show ?thesis by (cases p, cases acc) simp
qed

lemma keyStatusEffects_no_close:
  "CloseSession m \<notin> set (concat (map (\<lambda>(keyId, status). keyStatusEffects n keyId status) statuses))"
  by (auto simp add: keyStatusEffects_def split: if_splits)

lemma removeSession_removes_entry:
  "noDuplicateInitData h ss \<Longrightarrow> \<forall>s \<in> set (removeSession ss (Some d)). s_initData s \<noteq> Some d"
proof (induction ss)
  case Nil
  show ?case by simp
next
  case (Cons s ss)
  show ?case
  proof (cases "s_initData s = Some d")
    case True
    with Cons.prems show ?thesis
      by (auto simp add: list_all_iff split: option.splits)
  next
    case False
    with Cons show ?thesis by simp
  qed
qed

text \<open>
  The listener of a key session that was made with an event bus.  When some key reports
  \<open>expired\<close>, whatever the other keys report, it closes the session and waits for the
  close, with the \<^verbatim>\<open>removeSession\<close> and the initialization data of the session; when no
  key reports \<open>expired\<close> it neither closes the session nor leaves anything waiting.
\<close>

lemma onKeyStatusesChange_with_bus:
  assumes "n < length (keySessions w)"
    and "k_eventBus (keySessions w ! n)"
  shows "onKeyStatusesChange n statuses w =
     (None,
      if \<exists>keyId. (keyId, ''expired'') \<in> set statuses
      then spawn (AwaitClose (k_removeSession (keySessions w ! n)) (k_initData (keySessions w ! n)))
             (emit (concat (map (\<lambda>(keyId, status). keyStatusEffects n keyId status) statuses)
                    @ [CloseSession n]) w)
      else emit (concat (map (\<lambda>(keyId, status). keyStatusEffects n keyId status) statuses)) w)"
  using assms by (simp add: onKeyStatusesChange_def Let_def keyStatusesLoop_eq)

text \<open>
  The listener of a key session that was made without an event bus: the first visit of the
  loop throws, so the session is not closed, whatever its keys report.
\<close>

lemma onKeyStatusesChange_without_bus:
  assumes "n < length (keySessions w)"
    and "\<not> k_eventBus (keySessions w ! n)"
    and "statuses \<noteq> []"
  shows "onKeyStatusesChange n statuses w = (Some TypeError, w)"
  using assms by (simp add: onKeyStatusesChange_def Let_def keyStatusesLoop_no_bus)


text \<open>
  Where the code does what claim C6 says.  The key session at index \<open>n\<close> was made with an
  event bus for the initialization data \<open>d\<close>, and its \<^verbatim>\<open>removeSession\<close> is bound to the
  array that \<^verbatim>\<open>player.eme.sessions\<close> refers to.  When some key reports \<open>expired\<close>, the
  session is closed, and when the close completes the entry of \<open>d\<close> is gone from the
  registry.  When no key reports \<open>expired\<close>, the session is not closed and the registry
  stays as it is.
\<close>

lemma keystatuseschange_bound_to_registry:
  assumes "n < length (keySessions w)"
    and "k_initData (keySessions w ! n) = Some d"
    and "k_eventBus (keySessions w ! n)"
    and "k_removeSession (keySessions w ! n) = sessionsId w"
    and "noDuplicateInitData h (sessions w)"
  shows "((\<exists>keyId. (keyId, ''expired'') \<in> set statuses) \<longrightarrow>
            CloseSession n \<in> set (drop (length (effects w))
                                    (effects (snd (onKeyStatusesChange n statuses w))))
          \<and> tasks (snd (onKeyStatusesChange n statuses w)) =
              tasks w @ [AwaitClose (sessionsId w) (Some d)]
          \<and> sessions (step accepts h (Settle (length (tasks w)) (CloseSettled True))
                        (snd (onKeyStatusesChange n statuses w)))
              = removeSession (sessions w) (Some d)
          \<and> (\<forall>s \<in> set (removeSession (sessions w) (Some d)). s_initData s \<noteq> Some d))
       \<and> (\<not> (\<exists>keyId. (keyId, ''expired'') \<in> set statuses) \<longrightarrow>
            CloseSession n \<notin> set (drop (length (effects w))
                                    (effects (snd (onKeyStatusesChange n statuses w))))
          \<and> tasks (snd (onKeyStatusesChange n statuses w)) = tasks w
          \<and> sessions (snd (onKeyStatusesChange n statuses w)) = sessions w)"
proof (cases "\<exists>keyId. (keyId, ''expired'') \<in> set statuses")
  case True
  have w': "snd (onKeyStatusesChange n statuses w) =
      spawn (AwaitClose (sessionsId w) (Some d))
        (emit (concat (map (\<lambda>(keyId, status). keyStatusEffects n keyId status) statuses)
               @ [CloseSession n]) w)"
    using True assms(2,4) by (simp add: onKeyStatusesChange_with_bus [OF assms(1,3)])
  have "sessions (step accepts h (Settle (length (tasks w)) (CloseSettled True))
                    (snd (onKeyStatusesChange n statuses w)))
        = removeSession (sessions w) (Some d)"
    unfolding w'
    by (simp add: spawn_def emit_def dropTask_def onClose_def boundRemoveSession_def)
  then show ?thesis
    using True w' removeSession_removes_entry [OF assms(5), of d]
    by (simp add: spawn_def emit_def)
next
  case False
  have "snd (onKeyStatusesChange n statuses w) =
      emit (concat (map (\<lambda>(keyId, status). keyStatusEffects n keyId status) statuses)) w"
    using False by (simp add: onKeyStatusesChange_with_bus [OF assms(1,3)])
  then show ?thesis
    using False keyStatusEffects_no_close [of n n statuses] by (simp add: emit_def)
qed

text \<open>
  The state after \<open>sourceChangeActions\<close>: the registry of \<^verbatim>\<open>b.mpd\<close> is the array 2 and
  holds the entry of the second event; the one key session was made by \<^verbatim>\<open>setMediaKeys\<close>
  from the queue, for the initialization data of the second event and with the
  \<^verbatim>\<open>removeSession\<close> of the first call, which is bound to the array 1 of \<^verbatim>\<open>a.mpd\<close>.
\<close>

lemma sourceChangeActions_state:
  "sessionsId (run acceptsAll addressHeap sourceChangeActions initialWorld) = 2
   \<and> sessions (run acceptsAll addressHeap sourceChangeActions initialWorld)
       = registryOf (ArrayBuffer 2)
   \<and> keySessions (run acceptsAll addressHeap sourceChangeActions initialWorld)
       = [\<lparr>k_mediaKeys = 7, k_initDataType = ''cenc'', k_initData = Some (ArrayBuffer 2),
           k_getLicense = Some (Some (DefaultGetLicense ''https://example.com/license''), True),
           k_removeSession = 1, k_eventBus = True\<rparr>]"
  by (simp add: sourceChangeActions_def initialWorld_def setupSessions_def
      handleEncryptedEvent_def widevineOptions_def acceptsAll_def initDataFor_def psshOf_def
      encryptedEvent_def registryOf_def standard5July2016_def emit_def spawn_def Let_def
      dropTask_def onAddSession_def truthy_def addSession_def onKeySystemAccess_def
      standardizeKeySystemOptions_def onCreateMediaKeys_def setMediaKeys_def
      makeNewRequest_def)

text \<open>
  Claim C6 at an input where the code departs from it.  After \<open>sourceChangeActions\<close> the
  key session 0 belongs to the entry of the registry.  Its key reports \<open>expired\<close>: the
  session is closed and the close completes (no \<^verbatim>\<open>close\<close> is left waiting), and
  \<^verbatim>\<open>removeSession\<close> is called; but it is bound to the array of the earlier source, so
  the entry stays in the registry of the player.  The next encrypted event with that
  initialization data is then taken for a duplicate and makes no key session.
\<close>

theorem expired_key_stale_removeSession:
  "CloseSession 0 \<in> set (effects (run acceptsAll addressHeap expiryActions initialWorld))
   \<and> tasks (run acceptsAll addressHeap expiryActions initialWorld)
       = [AwaitSetMediaKeys ((widevineCall (ArrayBuffer 1))\<lparr>a_removeSession := 1\<rparr>)]
   \<and> sessions (run acceptsAll addressHeap expiryActions initialWorld)
       = registryOf (ArrayBuffer 2)
   \<and> keySessions (run acceptsAll addressHeap
        (expiryActions @
           [Encrypted (encryptedEvent (Some (ArrayBuffer 2))) (Some widevineOptions)])
        initialWorld)
       = keySessions (run acceptsAll addressHeap expiryActions initialWorld)"
  by (simp add: expiryActions_def sourceChangeActions_def initialWorld_def setupSessions_def
      handleEncryptedEvent_def widevineOptions_def acceptsAll_def initDataFor_def psshOf_def
      encryptedEvent_def registryOf_def standard5July2016_def emit_def spawn_def Let_def
      dropTask_def onAddSession_def truthy_def addSession_def onKeySystemAccess_def
      standardizeKeySystemOptions_def onCreateMediaKeys_def setMediaKeys_def
      makeNewRequest_def onKeyStatusesChange_def onClose_def boundRemoveSession_def
      widevineCall_def arrayBuffersEqual_Some)

text \<open>
  The other input where the code departs from claim C6: \<^verbatim>\<open>handleEncryptedEvent\<close> was
  called without an event bus.  The key session of \<open>noBusWorld\<close> reports an expired key;
  the listener throws at \<^verbatim>\<open>eventBus.trigger\<close>, the session is not closed and its entry
  stays in the registry.
\<close>

lemma noBusWorld_state:
  "keySessions noBusWorld
     = [\<lparr>k_mediaKeys = 7, k_initDataType = ''cenc'', k_initData = Some (ArrayBuffer 1),
         k_getLicense = Some (Some (DefaultGetLicense ''https://example.com/license''), False),
         k_removeSession = 0, k_eventBus = False\<rparr>]
   \<and> sessions noBusWorld = registryOf (ArrayBuffer 1)"
  by (simp add: noBusWorld_def initialWorld_def
      handleEncryptedEvent_def widevineOptions_def acceptsAll_def initDataFor_def psshOf_def
      encryptedEvent_def registryOf_def standard5July2016_def emit_def spawn_def Let_def
      dropTask_def onAddSession_def truthy_def addSession_def onKeySystemAccess_def
      standardizeKeySystemOptions_def onCreateMediaKeys_def setMediaKeys_def
      makeNewRequest_def onSetMediaKeys_def)

lemma expired_key_without_event_bus:
  "onKeyStatusesChange 0 [(''k1'', ''expired'')] noBusWorld = (Some TypeError, noBusWorld)
   \<and> sessions (step acceptsAll addressHeap (KeyStatusesChange 0 [(''k1'', ''expired'')]) noBusWorld)
       = registryOf (ArrayBuffer 1)"
proof -
  have n: "0 < length (keySessions noBusWorld)"
    by (simp add: noBusWorld_state)
  have b: "\<not> k_eventBus (keySessions noBusWorld ! 0)"
    by (simp add: noBusWorld_state)
  have "onKeyStatusesChange 0 [(''k1'', ''expired'')] noBusWorld = (Some TypeError, noBusWorld)"
    by (rule onKeyStatusesChange_without_bus [OF n b]) simp
  then show ?thesis
    by (simp add: noBusWorld_state)
qed

subsection \<open>Rejection of a configuration\<close>

lemma standardizeKeySystemOptions_rejects:
  "(\<exists>e. standardizeKeySystemOptions ks cfg = Inl e) =
     (\<not> suppliesUrl cfg \<and> \<not> suppliesGetLicense cfg)"
  by (cases cfg)
     (auto simp add: standardizeKeySystemOptions_def suppliesUrl_def suppliesGetLicense_def
        truthy_def Let_def split: option.splits)

lemma standardizeKeySystemOptions_error:
  "standardizeKeySystemOptions ks cfg = Inl e \<Longrightarrow> e = ConfigError"
  by (cases cfg)
     (auto simp add: standardizeKeySystemOptions_def truthy_def Let_def
        split: option.splits if_splits)

lemma standardizeKeySystemOptions_string:
  "s \<noteq> [] \<Longrightarrow>
   standardizeKeySystemOptions ks (ConfigString s) =
     Inr \<lparr>url = Some s,
          getLicense = Some (if ks = ''com.microsoft.playready''
                             then DefaultPlayreadyGetLicense s else DefaultGetLicense s),
          getCertificate = None, getKey = None, pssh = None,
          audioContentType = None, videoContentType = None\<rparr>"
  by (simp add: standardizeKeySystemOptions_def truthy_def)

lemma onKeySystemAccess_rejected:
  assumes "map_of (a_keySystems a) ks = Some cfg"
    and "standardizeKeySystemOptions ks cfg = Inl e"
  shows "onKeySystemAccess a (Granted ks) w =
     chainFailed a (w\<lparr>video := (video w)\<lparr>keySystem := Some ks\<rparr>\<rparr>)"
  using assms by (simp add: onKeySystemAccess_def)

text \<open>
  Claim C9, as amended.  \<^verbatim>\<open>standardizeKeySystemOptions\<close> throws exactly when the
  configuration supplies neither a license URL nor a \<^verbatim>\<open>getLicense\<close> function, where an
  empty string is no URL, and what it throws is the configuration error.  A non-empty
  string is accepted and becomes the license URL, with the default license function of the
  key system.  In the promise chain the rejection comes before the certificate hook and
  before \<^verbatim>\<open>createMediaKeys\<close>: the chain logs the failure and makes no key session, so no
  license is requested either.
\<close>

theorem standardizeKeySystemOptions_rejects_iff:
  "((\<exists>e. standardizeKeySystemOptions ks cfg = Inl e) =
      (\<not> suppliesUrl cfg \<and> \<not> suppliesGetLicense cfg))
   \<and> (standardizeKeySystemOptions ks cfg = Inl e \<longrightarrow> e = ConfigError)
   \<and> (s \<noteq> [] \<longrightarrow>
        standardizeKeySystemOptions ks (ConfigString s) =
          Inr \<lparr>url = Some s,
               getLicense = Some (if ks = ''com.microsoft.playready''
                                  then DefaultPlayreadyGetLicense s else DefaultGetLicense s),
               getCertificate = None, getKey = None, pssh = None,
               audioContentType = None, videoContentType = None\<rparr>)
   \<and> (map_of (a_keySystems a) ks = Some cfg \<and> standardizeKeySystemOptions ks cfg = Inl e \<longrightarrow>
        effects (onKeySystemAccess a (Granted ks) w) =
          effects w @ [LogError ''Failed to create and initialize a MediaKeys object'']
        \<and> tasks (onKeySystemAccess a (Granted ks) w) = tasks w @ [AwaitAddSession a]
        \<and> keySessions (onKeySystemAccess a (Granted ks) w) = keySessions w)"
proof -
  have "map_of (a_keySystems a) ks = Some cfg \<and> standardizeKeySystemOptions ks cfg = Inl e \<longrightarrow>
        effects (onKeySystemAccess a (Granted ks) w) =
          effects w @ [LogError ''Failed to create and initialize a MediaKeys object'']
        \<and> tasks (onKeySystemAccess a (Granted ks) w) = tasks w @ [AwaitAddSession a]
        \<and> keySessions (onKeySystemAccess a (Granted ks) w) = keySessions w"
    by (simp add: onKeySystemAccess_rejected chainFailed_def emit_def spawn_def)
  then show ?thesis
    using standardizeKeySystemOptions_rejects [of ks cfg]
      standardizeKeySystemOptions_error [of ks cfg e]
      standardizeKeySystemOptions_string [of s ks]
    by blast
qed

theorem standardizeKeySystemOptions_rejects_iff_witness:
  "standardizeKeySystemOptions ''com.widevine.alpha'' (ConfigString ''https://example.com/license'') =
     Inr \<lparr>url = Some ''https://example.com/license'',
          getLicense = Some (DefaultGetLicense ''https://example.com/license''),
          getCertificate = None, getKey = None, pssh = None,
          audioContentType = None, videoContentType = None\<rparr>
   \<and> effects (onKeySystemAccess
        \<lparr>a_initDataType = ''cenc'', a_initData = Some (ArrayBuffer 1),
         a_keySystems = [(''com.widevine.alpha'', playreadyGetKeyOptions)],
         a_removeSession = 0, a_eventBus = True\<rparr>
        (Granted ''com.widevine.alpha'') initialWorld)
       = [LogError ''Failed to create and initialize a MediaKeys object'']"
  using standardizeKeySystemOptions_rejects_iff
    [of "''com.widevine.alpha''" playreadyGetKeyOptions ConfigError "''https://example.com/license''"
        "\<lparr>a_initDataType = ''cenc'', a_initData = Some (ArrayBuffer 1),
          a_keySystems = [(''com.widevine.alpha'', playreadyGetKeyOptions)],
         a_removeSession = 0, a_eventBus = True\<rparr>"
        initialWorld]
  by (simp add: playreadyGetKeyOptions_def standardizeKeySystemOptions_def truthy_def
      initialWorld_def)

text \<open>
  Claim C9 as stated fails for the empty string: it is a plain string configuration, it is
  treated as the license URL, and it is rejected.
\<close>

theorem standardizeKeySystemOptions_empty_string_counterexample:
  "standardizeKeySystemOptions ''com.widevine.alpha'' (ConfigString []) = Inl ConfigError"
  by (simp add: standardizeKeySystemOptions_def truthy_def)

subsection \<open>The notification of a license request\<close>

text \<open>
  Claim C7, as amended.  In the callback of \<^verbatim>\<open>promisifyGetLicense\<close> (standard), in the
  callback of the \<^verbatim>\<open>webkitkeymessage\<close> listener (FairPlay) and in the callback of
  \<^verbatim>\<open>requestPlayreadyLicense\<close> (PlayReady without a custom \<^verbatim>\<open>getKey\<close>), an outcome is
  delivered, and when an event bus was supplied exactly one
  \<^verbatim>\<open>licenserequestattempted\<close> notification is emitted, before the outcome; without an
  event bus none is emitted.
\<close>

theorem license_request_notification:
  "notifications (promisifyGetLicense bus err license) = (if bus then 1 else 0)
   \<and> notificationsBeforeOutcome (promisifyGetLicense bus err license) = (if bus then 1 else 0)
   \<and> deliversOutcome (promisifyGetLicense bus err license)
   \<and> notifications (addKey bus err license) = (if bus then 1 else 0)
   \<and> notificationsBeforeOutcome (addKey bus err license) = (if bus then 1 else 0)
   \<and> deliversOutcome (addKey bus err license)
   \<and> (keyHook cfg = None \<longrightarrow>
        notifications (addKeyToSession cfg destinationURL bus err license) = (if bus then 1 else 0)
        \<and> notificationsBeforeOutcome (addKeyToSession cfg destinationURL bus err license)
            = (if bus then 1 else 0)
        \<and> deliversOutcome (addKeyToSession cfg destinationURL bus err license))"
  by (cases err)
     (simp_all add: promisifyGetLicense_def addKey_def addKeyToSession_def notifications_def
        notificationsBeforeOutcome_def deliversOutcome_def Let_def)

theorem license_request_notification_witness:
  "notifications (addKeyToSession (ConfigString ''https://example.com/rightsmanager.asmx'')
      ''https://destination.example'' True (Some CallbackError) None) = 1
   \<and> notificationsBeforeOutcome
        (addKeyToSession (ConfigString ''https://example.com/rightsmanager.asmx'')
           ''https://destination.example'' True (Some CallbackError) None) = 1
   \<and> deliversOutcome
        (addKeyToSession (ConfigString ''https://example.com/rightsmanager.asmx'')
           ''https://destination.example'' True (Some CallbackError) None)"
  using license_request_notification
    [of True "Some CallbackError" None "ConfigString ''https://example.com/rightsmanager.asmx''"
        "''https://destination.example''"]
  by (simp add: keyHook_def)

text \<open>
  Claim C7 as stated fails in two places: without an event bus the standard callback emits
  no notification, and with a custom \<^verbatim>\<open>getKey\<close> the PlayReady path emits none even
  when an event bus is there.
\<close>

theorem license_request_notification_counterexample:
  "notifications (promisifyGetLicense False None (Some 1)) = 0
   \<and> notifications (addKeyToSession playreadyGetKeyOptions ''https://destination.example''
        True None (Some 1)) = 0"
  by (simp add: promisifyGetLicense_def addKeyToSession_def keyHook_def
      playreadyGetKeyOptions_def notifications_def)

subsection \<open>The media-keys setup under the event loop\<close>

lemma filter_drained:
  "P (CreateSession mk) = False \<Longrightarrow> (\<And>t d. P (GenerateRequest t d) = False) \<Longrightarrow>
   filter P (concat (map (\<lambda>p. [CreateSession mk, GenerateRequest (p_initDataType p) (p_initData p)]) q))
     = []"
  by (induction q) simp_all

lemma tasks_drainPending [simp]: "tasks (drainPending mk g rm bus q w) = tasks w"
  by (induction q arbitrary: w) (simp_all add: makeNewRequest_def)

text \<open>What each continuation does to the effects, the waiting chains and the slot.\<close>

lemma chainFailed_parts:
  "effects (chainFailed a w) =
     effects w @ [LogError ''Failed to create and initialize a MediaKeys object'']"
  "tasks (chainFailed a w) = tasks w @ [AwaitAddSession a]"
  "video (chainFailed a w) = video w"
  by (simp_all add: chainFailed_def emit_def spawn_def)

lemma standard5July2016_entered:
  assumes "mediaKeysObject (video w) = Undefined"
  shows "mediaKeysObject (video (snd (standard5July2016 accepts a w))) = Null"
    and "countEffects isSetupEntered (snd (standard5July2016 accepts a w)) =
           countEffects isSetupEntered w + 1"
    and "countEffects isCreateMediaKeys (snd (standard5July2016 accepts a w)) =
           countEffects isCreateMediaKeys w"
    and "countEffects isVideoSetMediaKeys (snd (standard5July2016 accepts a w)) =
           countEffects isVideoSetMediaKeys w"
    and "countTasks beforeCreate (snd (standard5July2016 accepts a w)) \<le>
           countTasks beforeCreate w + 1"
    and "countTasks awaitsMediaKeys (snd (standard5July2016 accepts a w)) =
           countTasks awaitsMediaKeys w"
  using assms
  by (simp_all add: standard5July2016_def Let_def emit_def spawn_def countEffects_def
      countTasks_def split: option.splits)

lemma standard5July2016_skipped:
  "mediaKeysObject (video w) \<noteq> Undefined \<Longrightarrow>
     standard5July2016 accepts a w = (Pending, spawn (AwaitAddSession a) w)"
  by (simp add: standard5July2016_def)

lemma setMediaKeys_parts:
  "mediaKeysObject (video (snd (setMediaKeys mk c g rm bus w))) = MediaKeys mk"
  "tasks (snd (setMediaKeys mk c g rm bus w)) = tasks w"
  "countEffects isSetupEntered (snd (setMediaKeys mk c g rm bus w)) = countEffects isSetupEntered w"
  "countEffects isCreateMediaKeys (snd (setMediaKeys mk c g rm bus w)) = countEffects isCreateMediaKeys w"
  "countEffects isVideoSetMediaKeys (snd (setMediaKeys mk c g rm bus w)) \<le>
     countEffects isVideoSetMediaKeys w + 1"
  by (simp_all add: setMediaKeys_def Let_def emit_def countEffects_def effects_drainPending
      filter_drained split: option.splits)

lemma addSession_parts:
  "mediaKeysObject (video (snd (addSession t d g rm bus w))) = mediaKeysObject (video w)"
  "tasks (snd (addSession t d g rm bus w)) = tasks w"
  "countEffects isSetupEntered (snd (addSession t d g rm bus w)) = countEffects isSetupEntered w"
  "countEffects isCreateMediaKeys (snd (addSession t d g rm bus w)) = countEffects isCreateMediaKeys w"
  "countEffects isVideoSetMediaKeys (snd (addSession t d g rm bus w)) = countEffects isVideoSetMediaKeys w"
  by (simp_all add: addSession_def makeNewRequest_def countEffects_def
      split: mediaKeysSlot.splits option.splits)

lemma onAddSession_parts:
  "mediaKeysObject (video (snd (onAddSession a w))) = mediaKeysObject (video w)"
  "tasks (snd (onAddSession a w)) = tasks w"
  "countEffects isSetupEntered (snd (onAddSession a w)) = countEffects isSetupEntered w"
  "countEffects isCreateMediaKeys (snd (onAddSession a w)) = countEffects isCreateMediaKeys w"
  "countEffects isVideoSetMediaKeys (snd (onAddSession a w)) = countEffects isVideoSetMediaKeys w"
  by (simp_all add: onAddSession_def addSession_parts split: option.splits sum.splits)


lemma onKeySystemAccess_parts:
  "mediaKeysObject (video (onKeySystemAccess a acc w)) = mediaKeysObject (video w)"
  "countEffects isSetupEntered (onKeySystemAccess a acc w) = countEffects isSetupEntered w"
  "countEffects isVideoSetMediaKeys (onKeySystemAccess a acc w) = countEffects isVideoSetMediaKeys w"
  "(countEffects isCreateMediaKeys (onKeySystemAccess a acc w) = countEffects isCreateMediaKeys w
      \<and> countTasks beforeCreate (onKeySystemAccess a acc w) \<le> countTasks beforeCreate w + 1
      \<and> countTasks awaitsMediaKeys (onKeySystemAccess a acc w) = countTasks awaitsMediaKeys w)
   \<or> (countEffects isCreateMediaKeys (onKeySystemAccess a acc w) = countEffects isCreateMediaKeys w + 1
      \<and> countTasks beforeCreate (onKeySystemAccess a acc w) = countTasks beforeCreate w
      \<and> countTasks awaitsMediaKeys (onKeySystemAccess a acc w) = countTasks awaitsMediaKeys w + 1)"
  by (simp_all add: onKeySystemAccess_def Let_def chainFailed_def emit_def spawn_def
      countEffects_def countTasks_def split: access.splits option.splits sum.splits)

lemma onCertificate_parts:
  "mediaKeysObject (video (onCertificate a ks kso r w)) = mediaKeysObject (video w)"
  "countEffects isSetupEntered (onCertificate a ks kso r w) = countEffects isSetupEntered w"
  "countEffects isVideoSetMediaKeys (onCertificate a ks kso r w) = countEffects isVideoSetMediaKeys w"
  "(countEffects isCreateMediaKeys (onCertificate a ks kso r w) = countEffects isCreateMediaKeys w
      \<and> countTasks beforeCreate (onCertificate a ks kso r w) = countTasks beforeCreate w
      \<and> countTasks awaitsMediaKeys (onCertificate a ks kso r w) = countTasks awaitsMediaKeys w)
   \<or> (countEffects isCreateMediaKeys (onCertificate a ks kso r w) = countEffects isCreateMediaKeys w + 1
      \<and> countTasks beforeCreate (onCertificate a ks kso r w) = countTasks beforeCreate w
      \<and> countTasks awaitsMediaKeys (onCertificate a ks kso r w) = countTasks awaitsMediaKeys w + 1)"
  by (simp_all add: onCertificate_def chainFailed_def emit_def spawn_def
      countEffects_def countTasks_def split: sum.splits)

lemma onCreateMediaKeys_parts:
  "mediaKeysObject (video (onCreateMediaKeys a kso c r w)) = mediaKeysObject (video w)
   \<or> (\<exists>mk. mediaKeysObject (video (onCreateMediaKeys a kso c r w)) = MediaKeys mk)"
  "countEffects isSetupEntered (onCreateMediaKeys a kso c r w) = countEffects isSetupEntered w"
  "countEffects isCreateMediaKeys (onCreateMediaKeys a kso c r w) = countEffects isCreateMediaKeys w"
  "countEffects isVideoSetMediaKeys (onCreateMediaKeys a kso c r w)
     \<le> countEffects isVideoSetMediaKeys w + 1"
  "countTasks beforeCreate (onCreateMediaKeys a kso c r w) = countTasks beforeCreate w"
  "countTasks awaitsMediaKeys (onCreateMediaKeys a kso c r w) = countTasks awaitsMediaKeys w"
proof -
  show "mediaKeysObject (video (onCreateMediaKeys a kso c r w)) = mediaKeysObject (video w)
   \<or> (\<exists>mk. mediaKeysObject (video (onCreateMediaKeys a kso c r w)) = MediaKeys mk)"
  proof (cases r)
    case None
    then show ?thesis by (simp add: onCreateMediaKeys_def chainFailed_parts)
  next
    case (Some mk)
    obtain e w1 where s: "setMediaKeys mk c (Some (getLicense kso, a_eventBus a))
        (a_removeSession a) (a_eventBus a) w = (e, w1)"
      by (cases "setMediaKeys mk c (Some (getLicense kso, a_eventBus a))
        (a_removeSession a) (a_eventBus a) w")
    have "mediaKeysObject (video w1) = MediaKeys mk"
      using setMediaKeys_parts(1) [of mk c "Some (getLicense kso, a_eventBus a)"
          "a_removeSession a" "a_eventBus a" w] s by simp
    then show ?thesis
      using Some s by (cases e) (simp_all add: onCreateMediaKeys_def chainFailed_parts spawn_def)
  qed
next
  show "countEffects isSetupEntered (onCreateMediaKeys a kso c r w) = countEffects isSetupEntered w"
  proof (cases r)
    case None
    then show ?thesis
      by (simp add: onCreateMediaKeys_def countEffects_def chainFailed_parts)
  next
    case (Some mk)
    obtain e w1 where s: "setMediaKeys mk c (Some (getLicense kso, a_eventBus a))
        (a_removeSession a) (a_eventBus a) w = (e, w1)"
      by (cases "setMediaKeys mk c (Some (getLicense kso, a_eventBus a))
        (a_removeSession a) (a_eventBus a) w")
    have "countEffects isSetupEntered w1 = countEffects isSetupEntered w"
      using setMediaKeys_parts(3) [of mk c "Some (getLicense kso, a_eventBus a)"
          "a_removeSession a" "a_eventBus a" w] s by simp
    then show ?thesis
      using Some s
      by (cases e) (simp_all add: onCreateMediaKeys_def countEffects_def chainFailed_parts spawn_def)
  qed
next
  show "countEffects isCreateMediaKeys (onCreateMediaKeys a kso c r w) = countEffects isCreateMediaKeys w"
  proof (cases r)
    case None
    then show ?thesis
      by (simp add: onCreateMediaKeys_def countEffects_def chainFailed_parts)
  next
    case (Some mk)
    obtain e w1 where s: "setMediaKeys mk c (Some (getLicense kso, a_eventBus a))
        (a_removeSession a) (a_eventBus a) w = (e, w1)"
      by (cases "setMediaKeys mk c (Some (getLicense kso, a_eventBus a))
        (a_removeSession a) (a_eventBus a) w")
    have "countEffects isCreateMediaKeys w1 = countEffects isCreateMediaKeys w"
      using setMediaKeys_parts(4) [of mk c "Some (getLicense kso, a_eventBus a)"
          "a_removeSession a" "a_eventBus a" w] s by simp
    then show ?thesis
      using Some s
      by (cases e) (simp_all add: onCreateMediaKeys_def countEffects_def chainFailed_parts spawn_def)
  qed
next
  show "countEffects isVideoSetMediaKeys (onCreateMediaKeys a kso c r w)
     \<le> countEffects isVideoSetMediaKeys w + 1"
  proof (cases r)
    case None
    then show ?thesis
      by (simp add: onCreateMediaKeys_def countEffects_def chainFailed_parts)
  next
    case (Some mk)
    obtain e w1 where s: "setMediaKeys mk c (Some (getLicense kso, a_eventBus a))
        (a_removeSession a) (a_eventBus a) w = (e, w1)"
      by (cases "setMediaKeys mk c (Some (getLicense kso, a_eventBus a))
        (a_removeSession a) (a_eventBus a) w")
    have "countEffects isVideoSetMediaKeys w1 \<le> countEffects isVideoSetMediaKeys w + 1"
      using setMediaKeys_parts(5) [of mk c "Some (getLicense kso, a_eventBus a)"
          "a_removeSession a" "a_eventBus a" w] s by simp
    then show ?thesis
      using Some s
      by (cases e) (simp_all add: onCreateMediaKeys_def countEffects_def chainFailed_parts spawn_def)
  qed
next
  have t: "\<And>Q. Q (AwaitAddSession a) = False \<Longrightarrow> Q (AwaitSetMediaKeys a) = False \<Longrightarrow>
      countTasks Q (onCreateMediaKeys a kso c r w) = countTasks Q w"
  proof -
    fix Q :: "task \<Rightarrow> bool"
    assume q: "Q (AwaitAddSession a) = False" "Q (AwaitSetMediaKeys a) = False"
    show "countTasks Q (onCreateMediaKeys a kso c r w) = countTasks Q w"
    proof (cases r)
      case None
      then show ?thesis
        using q by (simp add: onCreateMediaKeys_def countTasks_def chainFailed_parts)
    next
      case (Some mk)
      obtain e w1 where s: "setMediaKeys mk c (Some (getLicense kso, a_eventBus a))
        (a_removeSession a) (a_eventBus a) w = (e, w1)"
        by (cases "setMediaKeys mk c (Some (getLicense kso, a_eventBus a))
        (a_removeSession a) (a_eventBus a) w")
      have "tasks w1 = tasks w"
        using setMediaKeys_parts(2) [of mk c "Some (getLicense kso, a_eventBus a)"
          "a_removeSession a" "a_eventBus a" w] s by simp
      then show ?thesis
        using Some s q
        by (cases e) (simp_all add: onCreateMediaKeys_def countTasks_def chainFailed_parts spawn_def)
    qed
  qed
  show "countTasks beforeCreate (onCreateMediaKeys a kso c r w) = countTasks beforeCreate w"
    by (rule t) simp_all
  show "countTasks awaitsMediaKeys (onCreateMediaKeys a kso c r w) = countTasks awaitsMediaKeys w"
    by (rule t) simp_all
qed




lemma handleEncryptedEvent_world:
  "snd (handleEncryptedEvent accepts h event options bus w) = w
   \<or> (\<exists>a ss. snd (handleEncryptedEvent accepts h event options bus w) =
         snd (standard5July2016 accepts a (w\<lparr>sessions := ss\<rparr>)))"
  by (auto simp add: handleEncryptedEvent_def Let_def split_beta
      split: option.splits access.splits sum.splits bool.splits)







subsection \<open>The slot of the media keys\<close>

lemma slot_handleEncryptedEvent:
  "mediaKeysObject (video w) \<noteq> Undefined \<Longrightarrow>
   mediaKeysObject (video (snd (handleEncryptedEvent accepts h event options bus w)))
     = mediaKeysObject (video w)"
  by (simp add: handleEncryptedEvent_def Let_def standard5July2016_skipped spawn_def
      split: option.splits access.splits sum.splits bool.splits)

lemma slot_continue:
  assumes "continue t r w = Some w'"
  shows "mediaKeysObject (video w') = mediaKeysObject (video w)
       \<or> (awaitsMediaKeys t \<and> (\<exists>mk. mediaKeysObject (video w') = MediaKeys mk))"
proof (cases t)
  case (AwaitKeySystemAccess a acc)
  with assms show ?thesis by (cases r) (auto simp add: onKeySystemAccess_parts)
next
  case (AwaitCertificate a ks kso)
  with assms show ?thesis by (cases r) (auto simp add: onCertificate_parts)
next
  case (AwaitCreateMediaKeys a kso cert)
  with assms obtain x where "w' = onCreateMediaKeys a kso cert x w"
    by (cases r) auto
  then show ?thesis
    using onCreateMediaKeys_parts(1) [of a kso cert x w] AwaitCreateMediaKeys by auto
next
  case (AwaitSetMediaKeys a)
  with assms show ?thesis
    by (cases r) (auto simp add: onSetMediaKeys_def chainFailed_parts spawn_def)
next
  case (AwaitAddSession a)
  with assms show ?thesis by (cases r) (auto simp add: onAddSession_parts)
next
  case (AwaitClose rm d)
  with assms show ?thesis by (cases r) (auto simp add: onClose_def boundRemoveSession_def)
qed

text \<open>Once the slot is not \<^verbatim>\<open>undefined\<close> it never is again.\<close>

lemma slot_defined_step:
  assumes "mediaKeysObject (video w) \<noteq> Undefined"
  shows "mediaKeysObject (video (step accepts h act w)) \<noteq> Undefined"
proof (cases act)
  case (SetupSessions src)
  with assms show ?thesis by (simp add: setupSessions_def)
next
  case (Encrypted event options)
  with assms show ?thesis by (simp add: slot_handleEncryptedEvent)
next
  case (CallStandard a)
  with assms show ?thesis by (simp add: standard5July2016_skipped spawn_def)
next
  case (Settle i r)
  show ?thesis
  proof (cases "i < length (tasks w)")
    case False
    with Settle assms show ?thesis by simp
  next
    case True
    show ?thesis
    proof (cases "continue (tasks w ! i) r (w\<lparr>tasks := dropTask i (tasks w)\<rparr>)")
      case None
      with Settle True assms show ?thesis by simp
    next
      case (Some w')
      from slot_continue [OF Some] assms have "mediaKeysObject (video w') \<noteq> Undefined"
        by auto
      with Settle True Some show ?thesis by simp
    qed
  qed
next
  case (KeyStatusesChange n statuses)
  with assms show ?thesis
    by (simp add: onKeyStatusesChange_def Let_def emit_def spawn_def
        split: prod.splits sum.splits)
qed


lemma slot_after_standard5July2016:
  "mediaKeysObject (video (snd (standard5July2016 accepts a w))) \<noteq> Undefined"
proof (cases "mediaKeysObject (video w) = Undefined")
  case True
  then show ?thesis by (simp add: standard5July2016_entered(1))
next
  case False
  then show ?thesis by (simp add: standard5July2016_skipped spawn_def)
qed






subsection \<open>The pending queue exists when it is needed\<close>

lemma queueReady_video:
  "video w' = video w \<Longrightarrow> queueReady w \<Longrightarrow> queueReady w'"
  by (simp add: queueReady_def)

lemma video_addSession:
  "pendingSessionData (video w) \<noteq> None \<Longrightarrow>
   mediaKeysObject (video (snd (addSession t d g rm bus w))) = mediaKeysObject (video w)
   \<and> pendingSessionData (video (snd (addSession t d g rm bus w))) \<noteq> None
   \<and> fst (addSession t d g rm bus w) = None"
  by (auto simp add: addSession_def makeNewRequest_def split: mediaKeysSlot.splits option.splits)

lemma queueReady_standard5July2016:
  "queueReady w \<Longrightarrow> queueReady (snd (standard5July2016 accepts a w))"
  by (simp add: queueReady_def standard5July2016_def Let_def emit_def spawn_def
      split: option.splits)

lemma queueReady_handleEncryptedEvent:
  assumes "queueReady w"
  shows "queueReady (snd (handleEncryptedEvent accepts h event options bus w))"
proof -
  have "\<And>ss. queueReady (w\<lparr>sessions := ss\<rparr>)"
    using assms by (simp add: queueReady_def)
  then show ?thesis
    using handleEncryptedEvent_world [of accepts h event options bus w] assms
    by (auto simp add: queueReady_standard5July2016)
qed

lemma queueReady_onAddSession:
  assumes "queueReady w" and "mediaKeysObject (video w) \<noteq> Undefined"
  shows "queueReady (snd (onAddSession a w))"
proof -
  have q: "pendingSessionData (video w) \<noteq> None"
    using assms by (simp add: queueReady_def)
  have "pendingSessionData (video (snd (onAddSession a w))) \<noteq> None"
    using video_addSession [OF q] q
    by (simp add: onAddSession_def split: option.splits sum.splits)
  then show ?thesis by (simp add: queueReady_def)
qed

lemma queueReady_onCreateMediaKeys:
  assumes "pendingSessionData (video w) \<noteq> None"
  shows "queueReady (onCreateMediaKeys a kso c r w)"
proof (cases r)
  case None
  with assms show ?thesis
    by (simp add: onCreateMediaKeys_def queueReady_def chainFailed_parts)
next
  case (Some mk)
  from assms obtain q where q: "pendingSessionData (video w) = Some q" by auto
  then show ?thesis
    using Some
    by (cases c)
       (simp_all add: onCreateMediaKeys_def setMediaKeys_def Let_def emit_def spawn_def
          queueReady_def)
qed

lemma set_dropTask: "set (dropTask i ts) \<subseteq> set ts"
  by (auto simp add: dropTask_def dest: in_set_takeD in_set_dropD)

lemma queue_step:
  assumes q: "queueReady w" and c: "chainsAfterEntry w"
  shows "queueReady (step accepts h act w) \<and> chainsAfterEntry (step accepts h act w)"
proof -
  have slot: "mediaKeysObject (video w) \<noteq> Undefined \<Longrightarrow>
      chainsAfterEntry (step accepts h act w)"
    using slot_defined_step [of w accepts h act] by (simp add: chainsAfterEntry_def)
  show ?thesis
  proof (cases act)
    case (SetupSessions src)
    with q c show ?thesis
      by (simp add: setupSessions_def queueReady_def chainsAfterEntry_def)
  next
    case (Encrypted event options)
    have "chainsAfterEntry (step accepts h act w)"
    proof (cases "mediaKeysObject (video w) = Undefined")
      case False
      then show ?thesis by (rule slot)
    next
      case True
      from handleEncryptedEvent_world [of accepts h event options True w]
      show ?thesis
        using c slot_after_standard5July2016 Encrypted
        by (auto simp add: chainsAfterEntry_def)
    qed
    with q Encrypted show ?thesis by (simp add: queueReady_handleEncryptedEvent)
  next
    case (CallStandard a)
    with q show ?thesis
      using slot_after_standard5July2016 [of accepts a w]
      by (simp add: queueReady_standard5July2016 chainsAfterEntry_def)
  next
    case (KeyStatusesChange n statuses)
    have v: "video (snd (onKeyStatusesChange n statuses w)) = video w"
      by (simp add: onKeyStatusesChange_def Let_def emit_def spawn_def
          split: prod.splits sum.splits)
    have t: "set (tasks (snd (onKeyStatusesChange n statuses w))) \<subseteq>
        set (tasks w) \<union>
          {AwaitClose (k_removeSession (keySessions w ! n)) (k_initData (keySessions w ! n))}"
      by (auto simp add: onKeyStatusesChange_def Let_def emit_def spawn_def
          split: prod.splits sum.splits if_splits)
    have "chainsAfterEntry (snd (onKeyStatusesChange n statuses w))"
      unfolding chainsAfterEntry_def
    proof (intro impI ballI)
      fix t'
      assume u: "mediaKeysObject (video (snd (onKeyStatusesChange n statuses w))) = Undefined"
        and m: "t' \<in> set (tasks (snd (onKeyStatusesChange n statuses w)))"
      from m t have "t' \<in> set (tasks w) \<or>
          t' = AwaitClose (k_removeSession (keySessions w ! n)) (k_initData (keySessions w ! n))"
        by auto
      then show "case t' of AwaitClose rm d \<Rightarrow> True | _ \<Rightarrow> False"
        using c u v by (auto simp add: chainsAfterEntry_def)
    qed
    with q v KeyStatusesChange show ?thesis
      by (simp add: queueReady_video)
  next
    case (Settle i r)
    show ?thesis
    proof (cases "i < length (tasks w)")
      case False
      with Settle q c show ?thesis by simp
    next
      case True
      define w0 where "w0 = w\<lparr>tasks := dropTask i (tasks w)\<rparr>"
      have q0: "queueReady w0" and v0: "video w0 = video w"
        using q by (simp_all add: w0_def queueReady_def)
      have c0: "chainsAfterEntry w0"
        using c set_dropTask [of i "tasks w"] by (auto simp add: w0_def chainsAfterEntry_def)
      show ?thesis
      proof (cases "continue (tasks w ! i) r w0")
        case None
        with Settle True q c show ?thesis by (simp add: w0_def)
      next
        case (Some w')
        have w': "step accepts h act w = w'"
          using Settle True Some by (simp add: w0_def)
        have mem: "tasks w ! i \<in> set (tasks w)"
          using True by simp
        show ?thesis
        proof (cases "mediaKeysObject (video w) = Undefined")
          case True
          with c mem obtain rm d where t: "tasks w ! i = AwaitClose rm d"
            by (auto simp add: chainsAfterEntry_def split: task.splits)
          with Some obtain ok where "w' = onClose rm d ok w0"
            by (cases r) auto
          then have "video w' = video w0" "tasks w' = tasks w0"
            by (simp_all add: onClose_def boundRemoveSession_def)
          then show ?thesis
            unfolding w' using q0 c0 by (simp add: queueReady_def chainsAfterEntry_def)
        next
          case False
          then have pq: "pendingSessionData (video w0) \<noteq> None"
            using q v0 by (simp add: queueReady_def)
          have "queueReady w'"
          proof (cases "tasks w ! i")
            case (AwaitKeySystemAccess a acc)
            with Some have "w' = onKeySystemAccess a acc w0" by (cases r) auto
            then show ?thesis
              using pq onKeySystemAccess_parts(1) [of a acc w0]
              by (auto simp add: queueReady_def onKeySystemAccess_def Let_def chainFailed_def
                  emit_def spawn_def split: access.splits option.splits sum.splits)
          next
            case (AwaitCertificate a ks kso)
            with Some obtain x where "w' = onCertificate a ks kso x w0" by (cases r) auto
            then show ?thesis
              using pq
              by (auto simp add: queueReady_def onCertificate_def chainFailed_def
                  emit_def spawn_def split: sum.splits)
          next
            case (AwaitCreateMediaKeys a kso cert)
            with Some obtain x where "w' = onCreateMediaKeys a kso cert x w0" by (cases r) auto
            then show ?thesis
              using queueReady_onCreateMediaKeys [OF pq] by simp
          next
            case (AwaitSetMediaKeys a)
            with Some obtain ok where "w' = onSetMediaKeys a ok w0" by (cases r) auto
            then show ?thesis
              using q0
              by (auto simp add: queueReady_def onSetMediaKeys_def chainFailed_def
                  emit_def spawn_def)
          next
            case (AwaitAddSession a)
            with Some have "w' = snd (onAddSession a w0)" by (cases r) auto
            then show ?thesis
              using queueReady_onAddSession [OF q0] False v0 by simp
          next
            case (AwaitClose rm d)
            with Some obtain ok where "w' = onClose rm d ok w0" by (cases r) auto
            then show ?thesis
              using q0 by (simp add: queueReady_def onClose_def boundRemoveSession_def)
          qed
          with slot [OF False] show ?thesis by (simp add: w')
        qed
      qed
    qed
  qed
qed

lemma queue_run:
  "queueReady w \<Longrightarrow> chainsAfterEntry w \<Longrightarrow>
   queueReady (run accepts h acts w) \<and> chainsAfterEntry (run accepts h acts w)"
  by (induction acts arbitrary: w) (simp_all add: queue_step)

text \<open>
  In every state the event loop reaches from a fresh player, the turn of \<^verbatim>\<open>addSession\<close>
  finds the queue: it does not throw for a missing queue.
\<close>

lemma addSession_finds_queue:
  assumes "w = run accepts h acts initialWorld"
    and "i < length (tasks w)" and "tasks w ! i = AwaitAddSession a"
  shows "pendingSessionData (video w) \<noteq> None"
proof -
  have "queueReady w \<and> chainsAfterEntry w"
    unfolding assms(1)
    by (rule queue_run) (simp_all add: queueReady_def chainsAfterEntry_def initialWorld_def)
  moreover have "AwaitAddSession a \<in> set (tasks w)"
    using assms(2,3) by (metis nth_mem)
  ultimately show ?thesis
    by (auto simp add: queueReady_def chainsAfterEntry_def)
qed

subsection \<open>The pending queue\<close>




end
